theory Spec2Isabelle
  imports Main
begin

section \<open>JavaScript dates\<close>

text \<open>
  A JavaScript \<open>Date\<close> is its time value: milliseconds since 1970-01-01T00:00Z. The
  functions below are the abstract operations of ECMA-262 (Day, TimeWithinDay,
  DaysInYear, DayFromYear, YearFromTime, MonthFromTime, DateFromTime, WeekDay, MakeDay,
  MakeDate, LocalTime, UTC) and the \<open>Date\<close> methods and constructors that the planner
  calls. In this section numbers are mathematical integers (time values and their parts
  are integers far below \<open>2^53\<close>, where the arithmetic of doubles is exact); invalid
  dates (NaN) and the range limit of TimeClip are outside the model.
\<close>

type_synonym Date = int

definition msPerDay :: int where
  "msPerDay = 86400000"

definition msPerHour :: int where
  "msPerHour = 3600000"

definition Day :: "int \<Rightarrow> int" where
  "Day t = t div msPerDay"

definition TimeWithinDay :: "int \<Rightarrow> int" where
  "TimeWithinDay t = t mod msPerDay"

definition DaysInYear :: "int \<Rightarrow> int" where
  "DaysInYear y =
     (if y mod 4 \<noteq> 0 then 365
      else if y mod 100 \<noteq> 0 then 366
      else if y mod 400 \<noteq> 0 then 365
      else 366)"

definition DayFromYear :: "int \<Rightarrow> int" where
  "DayFromYear y =
     365 * (y - 1970) + (y - 1969) div 4 - (y - 1901) div 100 + (y - 1601) div 400"

text \<open>
  \<open>YearFromTime(t)\<close> is the largest year \<open>y\<close> with \<open>DayFromYear y \<le> Day t\<close>. It is
  computed by a search upwards from a year that is not too large (\<open>yearGuess\<close>); the
  search needs the fact that a year has at least 365 days.
\<close>

lemma div_step:
  fixes a n :: int
  assumes "0 < n"
  shows "(a + 1) div n = a div n + (if (a + 1) mod n = 0 then 1 else 0)"
proof (cases "a mod n = n - 1")
  case True
  have "n * (a div n) + a mod n = a" by simp
  moreover have "n * (a div n + 1) = n * (a div n) + n" by (simp add: algebra_simps)
  ultimately have "a + 1 = n * (a div n + 1) + 0"
    using True by linarith
  then have "(a + 1) div n = a div n + 1" and "(a + 1) mod n = 0"
    using assms by (metis int_div_pos_eq order_refl, metis int_mod_pos_eq order_refl)
  then show ?thesis by simp
next
  case False
  have r: "0 \<le> a mod n" "a mod n < n" using assms by simp_all
  have "n * (a div n) + a mod n = a" by simp
  then have "a + 1 = n * (a div n) + (a mod n + 1)"
    by linarith
  moreover have "0 \<le> a mod n + 1" "a mod n + 1 < n" using r False by linarith+
  ultimately have "(a + 1) div n = a div n" and "(a + 1) mod n = a mod n + 1"
    by (metis int_div_pos_eq, metis int_mod_pos_eq)
  then show ?thesis using r by simp
qed

lemma mod_shift:
  fixes y n k :: int
  shows "(y - n * k) mod n = 0 \<longleftrightarrow> y mod n = 0"
  by (metis mod_mult_self2 diff_eq_eq)

lemma leap_step_arith:
  fixes y P Q R :: int
  assumes "b400 \<Longrightarrow> b100" and "b100 \<Longrightarrow> b4"
  shows "365 * (y + 1 - 1970) + (P + (if b4 then 1 else 0)) - (Q + (if b100 then 1 else 0))
           + (R + (if b400 then 1 else 0))
         = 365 * (y - 1970) + P - Q + R
           + (if \<not> b4 then 365 else if \<not> b100 then 366 else if \<not> b400 then 365 else 366)"
  using assms by (cases b4; cases b100; cases b400; simp)

lemma mod_400_100: "(y::int) mod 400 = 0 \<Longrightarrow> y mod 100 = 0"
proof -
  assume "y mod 400 = 0"
  then have "400 dvd y" by (simp add: dvd_eq_mod_eq_0)
  moreover have "(100::int) dvd 400" by simp
  ultimately have "100 dvd y" by (rule dvd_trans [rotated])
  then show "y mod 100 = 0" by (simp add: dvd_eq_mod_eq_0)
qed

lemma mod_100_4: "(y::int) mod 100 = 0 \<Longrightarrow> y mod 4 = 0"
proof -
  assume "y mod 100 = 0"
  then have "100 dvd y" by (simp add: dvd_eq_mod_eq_0)
  moreover have "(4::int) dvd 100" by simp
  ultimately have "4 dvd y" by (rule dvd_trans [rotated])
  then show "y mod 4 = 0" by (simp add: dvd_eq_mod_eq_0)
qed

lemma DayFromYear_Suc: "DayFromYear (y + 1) = DayFromYear y + DaysInYear y"
proof -
  have a: "(y + 1 - 1969) div 4 = (y - 1969) div 4 + (if y mod 4 = 0 then 1 else 0)"
  proof -
    have "y + 1 - 1969 = (y - 1969) + 1" "y - 1969 + 1 = y - 4 * 492" by simp_all
    then show ?thesis using div_step [of 4 "y - 1969"] mod_shift [of y 4 492] by simp
  qed
  have b: "(y + 1 - 1901) div 100 = (y - 1901) div 100 + (if y mod 100 = 0 then 1 else 0)"
  proof -
    have "y + 1 - 1901 = (y - 1901) + 1" "y - 1901 + 1 = y - 100 * 19" by simp_all
    then show ?thesis using div_step [of 100 "y - 1901"] mod_shift [of y 100 19] by simp
  qed
  have c: "(y + 1 - 1601) div 400 = (y - 1601) div 400 + (if y mod 400 = 0 then 1 else 0)"
  proof -
    have "y + 1 - 1601 = (y - 1601) + 1" "y - 1601 + 1 = y - 400 * 4" by simp_all
    then show ?thesis using div_step [of 400 "y - 1601"] mod_shift [of y 400 4] by simp
  qed
  show ?thesis
    unfolding DayFromYear_def DaysInYear_def a b c
    by (rule leap_step_arith) (rule mod_400_100, assumption, rule mod_100_4, assumption)
qed

lemma DaysInYear_bounds: "365 \<le> DaysInYear y" "DaysInYear y \<le> 366"
  by (simp_all add: DaysInYear_def)

function yearUp :: "int \<Rightarrow> int \<Rightarrow> int" where
  "yearUp y n = (if DayFromYear (y + 1) \<le> n then yearUp (y + 1) n else y)"
  by pat_completeness auto
termination
proof (relation "measure (\<lambda>(y, n). nat (n + 1 - DayFromYear (y + 1)))")
  show "wf (measure (\<lambda>(y, n). nat (n + 1 - DayFromYear (y + 1))))" by simp
next
  fix y n :: int
  assume "DayFromYear (y + 1) \<le> n"
  moreover have "DayFromYear (y + 1 + 1) = DayFromYear (y + 1) + DaysInYear (y + 1)"
    by (rule DayFromYear_Suc)
  moreover have "365 \<le> DaysInYear (y + 1)" by (rule DaysInYear_bounds)
  ultimately show "((y + 1, n), (y, n)) \<in> measure (\<lambda>(y, n). nat (n + 1 - DayFromYear (y + 1)))"
    by simp
qed

declare yearUp.simps [simp del]

definition yearGuess :: "int \<Rightarrow> int" where
  "yearGuess n = 1970 + (if 0 \<le> n then n div 366 else n div 365)"

definition YearFromDay :: "int \<Rightarrow> int" where
  "YearFromDay n = yearUp (yearGuess n) n"

definition YearFromTime :: "int \<Rightarrow> int" where
  "YearFromTime t = YearFromDay (Day t)"

definition InLeapYear :: "int \<Rightarrow> int" where
  "InLeapYear t = (if DaysInYear (YearFromTime t) = 366 then 1 else 0)"

definition DayWithinYear :: "int \<Rightarrow> int" where
  "DayWithinYear t = Day t - DayFromYear (YearFromTime t)"

definition MonthFromTime :: "int \<Rightarrow> int" where
  "MonthFromTime t =
     (let d = DayWithinYear t; l = InLeapYear t in
      if d < 31 then 0
      else if d < 59 + l then 1
      else if d < 90 + l then 2
      else if d < 120 + l then 3
      else if d < 151 + l then 4
      else if d < 181 + l then 5
      else if d < 212 + l then 6
      else if d < 243 + l then 7
      else if d < 273 + l then 8
      else if d < 304 + l then 9
      else if d < 334 + l then 10
      else 11)"

text \<open>The day within the year on which month \<open>m\<close> (0 = January) starts.\<close>

definition monthStart :: "int \<Rightarrow> int \<Rightarrow> int" where
  "monthStart m l =
     (if m = 0 then 0
      else if m = 1 then 31
      else if m = 2 then 59 + l
      else if m = 3 then 90 + l
      else if m = 4 then 120 + l
      else if m = 5 then 151 + l
      else if m = 6 then 181 + l
      else if m = 7 then 212 + l
      else if m = 8 then 243 + l
      else if m = 9 then 273 + l
      else if m = 10 then 304 + l
      else 334 + l)"

definition DateFromTime :: "int \<Rightarrow> int" where
  "DateFromTime t = DayWithinYear t - monthStart (MonthFromTime t) (InLeapYear t) + 1"

definition WeekDay :: "int \<Rightarrow> int" where
  "WeekDay t = (Day t + 4) mod 7"

definition MakeDay :: "int \<Rightarrow> int \<Rightarrow> int \<Rightarrow> int" where
  "MakeDay year month date =
     (let ym = year + month div 12; mn = month mod 12 in
      DayFromYear ym + monthStart mn (if DaysInYear ym = 366 then 1 else 0) + date - 1)"

definition MakeDate :: "int \<Rightarrow> int \<Rightarrow> int" where
  "MakeDate day time = day * msPerDay + time"

text \<open>The number of days of month \<open>m\<close> (1 = January) in year \<open>y\<close>.\<close>

definition daysInMonth :: "int \<Rightarrow> int \<Rightarrow> int" where
  "daysInMonth y m =
     (if m = 2 then (if DaysInYear y = 366 then 29 else 28)
      else if m = 4 \<or> m = 6 \<or> m = 9 \<or> m = 11 then 30
      else 31)"

subsection \<open>The local time zone\<close>

text \<open>
  The local time zone is a parameter of everything that reads or builds a local date. A
  zone is its standard offset from UTC in milliseconds and the UTC instants, ascending,
  at which daylight saving time switches: on at the first, off at the second, and so on;
  the saving is one hour. \<open>Zone 32400000 []\<close> is Asia/Seoul. \<open>LocalTime\<close> adds the
  offset in force at a UTC instant; \<open>UTC\<close> reads a local time with the earlier of the
  instants it can mean and, for a local time that a switch skips, with the offset before
  the switch, as ECMA-262 prescribes.
\<close>

datatype zone = Zone int "int list"

fun standard :: "zone \<Rightarrow> int" where
  "standard (Zone s ts) = s"

fun switches :: "zone \<Rightarrow> int list" where
  "switches (Zone s ts) = ts"

definition inDST :: "zone \<Rightarrow> int \<Rightarrow> bool" where
  "inDST tz t = odd (length (filter (\<lambda>x. x \<le> t) (switches tz)))"

definition LocalTZA :: "zone \<Rightarrow> int \<Rightarrow> int" where
  "LocalTZA tz t = standard tz + (if inDST tz t then msPerHour else 0)"

definition LocalTime :: "zone \<Rightarrow> int \<Rightarrow> int" where
  "LocalTime tz t = t + LocalTZA tz t"

definition UTC :: "zone \<Rightarrow> int \<Rightarrow> int" where
  "UTC tz t =
     (if inDST tz (t - standard tz - msPerHour) then t - standard tz - msPerHour
      else t - standard tz)"

subsection \<open>The methods and constructors of \<open>Date\<close>\<close>

definition getFullYear :: "zone \<Rightarrow> Date \<Rightarrow> int" where
  "getFullYear tz d = YearFromTime (LocalTime tz d)"

definition getMonth :: "zone \<Rightarrow> Date \<Rightarrow> int" where
  "getMonth tz d = MonthFromTime (LocalTime tz d)"

definition getDate :: "zone \<Rightarrow> Date \<Rightarrow> int" where
  "getDate tz d = DateFromTime (LocalTime tz d)"

definition getDay :: "zone \<Rightarrow> Date \<Rightarrow> int" where
  "getDay tz d = WeekDay (LocalTime tz d)"

definition getTime :: "Date \<Rightarrow> int" where
  "getTime d = d"

text \<open>\<open>new Date(year, month, date)\<close>: local midnight; a year in 0..99 means 1900 + year.\<close>

definition newDate :: "zone \<Rightarrow> int \<Rightarrow> int \<Rightarrow> int \<Rightarrow> Date" where
  "newDate tz year month date =
     (let yr = (if 0 \<le> year \<and> year \<le> 99 then 1900 + year else year) in
      UTC tz (MakeDate (MakeDay yr month date) 0))"

text \<open>\<open>d.setDate(date)\<close>, returning the new time value of \<open>d\<close>.\<close>

definition setDate :: "zone \<Rightarrow> Date \<Rightarrow> int \<Rightarrow> Date" where
  "setDate tz d date =
     (let t = LocalTime tz d in
      UTC tz (MakeDate (MakeDay (YearFromTime t) (MonthFromTime t) date) (TimeWithinDay t)))"

subsection \<open>Facts about the date functions\<close>

lemma DayFromYear_mono_nat: "DayFromYear y \<le> DayFromYear (y + int k)"
proof (induction k)
  case 0
  show ?case by simp
next
  case (Suc k)
  have "DayFromYear (y + int k + 1) = DayFromYear (y + int k) + DaysInYear (y + int k)"
    by (rule DayFromYear_Suc)
  moreover have "365 \<le> DaysInYear (y + int k)" by (rule DaysInYear_bounds)
  moreover have "y + int (Suc k) = y + int k + 1" by simp
  ultimately show ?case using Suc by (simp only:)
qed

lemma DayFromYear_mono: "y \<le> y' \<Longrightarrow> DayFromYear y \<le> DayFromYear y'"
  using DayFromYear_mono_nat [of y "nat (y' - y)"] by simp

lemma DayFromYear_1970: "DayFromYear 1970 = 0"
  by (simp add: DayFromYear_def)

lemma DayFromYear_upper: "DayFromYear (1970 + int k) \<le> 366 * int k"
proof (induction k)
  case 0
  show ?case by (simp add: DayFromYear_1970)
next
  case (Suc k)
  have "DayFromYear (1970 + int k + 1) = DayFromYear (1970 + int k) + DaysInYear (1970 + int k)"
    by (rule DayFromYear_Suc)
  moreover have "DaysInYear (1970 + int k) \<le> 366" by (rule DaysInYear_bounds)
  moreover have "1970 + int (Suc k) = 1970 + int k + 1" by simp
  moreover have "366 * int (Suc k) = 366 * int k + 366" by simp
  ultimately show ?case using Suc by (simp only:)
qed

lemma DayFromYear_lower: "DayFromYear (1970 - int k) \<le> - 365 * int k"
proof (induction k)
  case 0
  show ?case by (simp add: DayFromYear_1970)
next
  case (Suc k)
  have "DayFromYear (1970 - int (Suc k) + 1)
      = DayFromYear (1970 - int (Suc k)) + DaysInYear (1970 - int (Suc k))"
    by (rule DayFromYear_Suc)
  moreover have "1970 - int (Suc k) + 1 = 1970 - int k" by simp
  moreover have "365 \<le> DaysInYear (1970 - int (Suc k))" by (rule DaysInYear_bounds)
  moreover have "- 365 * int (Suc k) = - 365 * int k - 365" by simp
  ultimately show ?case using Suc by (simp only:)
qed

lemma yearGuess_le: "DayFromYear (yearGuess n) \<le> n"
proof (cases "0 \<le> n")
  case True
  define k where "k = nat (n div 366)"
  have k: "int k = n div 366" using True by (simp add: k_def pos_imp_zdiv_nonneg_iff)
  have "366 * (n div 366) + n mod 366 = n" by simp
  moreover have "0 \<le> n mod 366" by simp
  ultimately have "366 * (n div 366) \<le> n" by linarith
  then have "366 * int k \<le> n" by (simp only: k)
  moreover have "DayFromYear (1970 + int k) \<le> 366 * int k" by (rule DayFromYear_upper)
  ultimately show ?thesis using True by (simp add: yearGuess_def k)
next
  case False
  define k where "k = nat (- (n div 365))"
  have "n div 365 < 0" using False by (simp add: div_neg_pos_less0)
  then have k: "int k = - (n div 365)" by (simp add: k_def)
  have "365 * (n div 365) + n mod 365 = n" by simp
  moreover have "0 \<le> n mod 365" by simp
  ultimately have "365 * (n div 365) \<le> n" by linarith
  then have "- 365 * int k \<le> n" by (simp add: k)
  moreover have "DayFromYear (1970 - int k) \<le> - 365 * int k" by (rule DayFromYear_lower)
  ultimately show ?thesis using False by (simp add: yearGuess_def k)
qed

lemma yearUp_spec:
  "DayFromYear y \<le> n \<Longrightarrow>
   DayFromYear (yearUp y n) \<le> n \<and> n < DayFromYear (yearUp y n + 1)"
proof (induction y n rule: yearUp.induct)
  case (1 y n)
  show ?case
  proof (cases "DayFromYear (y + 1) \<le> n")
    case True
    then show ?thesis using "1.IH" by (subst (1 2) yearUp.simps) simp
  next
    case False
    then show ?thesis using "1.prems" by (subst (1 2) yearUp.simps) simp
  qed
qed

lemma YearFromDay_spec:
  "DayFromYear (YearFromDay n) \<le> n" "n < DayFromYear (YearFromDay n + 1)"
  using yearUp_spec [OF yearGuess_le, of n] by (simp_all add: YearFromDay_def)

lemma YearFromDay_ge: "DayFromYear y \<le> n \<Longrightarrow> y \<le> YearFromDay n"
proof (rule ccontr)
  assume a: "DayFromYear y \<le> n" and "\<not> y \<le> YearFromDay n"
  then have "YearFromDay n + 1 \<le> y" by simp
  then have "DayFromYear (YearFromDay n + 1) \<le> DayFromYear y" by (rule DayFromYear_mono)
  with a YearFromDay_spec(2) [of n] show False by linarith
qed

lemma MonthFromTime_range: "0 \<le> MonthFromTime t" "MonthFromTime t \<le> 11"
  by (simp_all add: MonthFromTime_def Let_def)

lemma MakeDay_roundtrip:
  "MakeDay (YearFromTime t) (MonthFromTime t) (DateFromTime t + k) = Day t + k"
proof -
  have "MonthFromTime t div 12 = 0" "MonthFromTime t mod 12 = MonthFromTime t"
    using MonthFromTime_range [of t] by simp_all
  then show ?thesis
    by (simp add: MakeDay_def DateFromTime_def DayWithinYear_def InLeapYear_def)
qed

lemma DayWithinYear_range:
  "0 \<le> DayWithinYear t" "DayWithinYear t < DaysInYear (YearFromTime t)"
  using YearFromDay_spec [of "Day t"] DayFromYear_Suc [of "YearFromDay (Day t)"]
  by (simp_all add: DayWithinYear_def YearFromTime_def)

lemma MonthFromTime_cases:
  fixes t :: int
  defines "d \<equiv> DayWithinYear t" and "l \<equiv> InLeapYear t" and "m \<equiv> MonthFromTime t"
  shows "(d < 31 \<and> m = 0) \<or> (31 \<le> d \<and> d < 59 + l \<and> m = 1)
       \<or> (59 + l \<le> d \<and> d < 90 + l \<and> m = 2) \<or> (90 + l \<le> d \<and> d < 120 + l \<and> m = 3)
       \<or> (120 + l \<le> d \<and> d < 151 + l \<and> m = 4) \<or> (151 + l \<le> d \<and> d < 181 + l \<and> m = 5)
       \<or> (181 + l \<le> d \<and> d < 212 + l \<and> m = 6) \<or> (212 + l \<le> d \<and> d < 243 + l \<and> m = 7)
       \<or> (243 + l \<le> d \<and> d < 273 + l \<and> m = 8) \<or> (273 + l \<le> d \<and> d < 304 + l \<and> m = 9)
       \<or> (304 + l \<le> d \<and> d < 334 + l \<and> m = 10) \<or> (334 + l \<le> d \<and> m = 11)"
  unfolding m_def MonthFromTime_def Let_def d_def [symmetric] l_def [symmetric]
  by (simp add: not_less)

lemma DateFromTime_range:
  "1 \<le> DateFromTime t"
  "DateFromTime t \<le> daysInMonth (YearFromTime t) (MonthFromTime t + 1)"
proof -
  define d where "d = DayWithinYear t"
  define l where "l = InLeapYear t"
  define m where "m = MonthFromTime t"
  have d: "0 \<le> d" "d < 365 + l"
    using DayWithinYear_range [of t] DaysInYear_bounds [of "YearFromTime t"]
    by (simp_all add: d_def l_def InLeapYear_def)
  have l: "l = (if DaysInYear (YearFromTime t) = 366 then 1 else 0)"
    by (simp add: l_def InLeapYear_def)
  have date: "DateFromTime t = d - monthStart m l + 1"
    by (simp add: DateFromTime_def d_def l_def m_def)
  note cases = MonthFromTime_cases [of t, folded d_def l_def m_def]
  show "1 \<le> DateFromTime t"
    unfolding date using cases d(1)
    by (elim disjE conjE) (simp_all add: monthStart_def)
  show "DateFromTime t \<le> daysInMonth (YearFromTime t) (MonthFromTime t + 1)"
    unfolding date m_def [symmetric] using cases d(2) l
    by (elim disjE conjE) (simp_all add: monthStart_def daysInMonth_def split: if_splits)
qed

text \<open>
  Setting the date to the next day of the month moves a \<open>Date\<close> forward, in every zone:
  the local time moves by a day and the offset changes by an hour at most.
\<close>

lemma LocalTZA_ge: "standard tz \<le> LocalTZA tz t"
  by (simp add: LocalTZA_def msPerHour_def)

lemma UTC_ge: "t - standard tz - msPerHour \<le> UTC tz t"
  by (simp add: UTC_def msPerHour_def)

lemma setDate_local:
  "setDate tz d (getDate tz d + 1) = UTC tz (LocalTime tz d + msPerDay)"
proof -
  define t where "t = LocalTime tz d"
  have "Day t * msPerDay + t mod msPerDay = t"
    by (simp add: Day_def)
  then have "MakeDate (Day t + 1) (TimeWithinDay t) = t + msPerDay"
    by (simp add: MakeDate_def TimeWithinDay_def algebra_simps)
  then have "UTC tz (MakeDate (MakeDay (YearFromTime t) (MonthFromTime t) (DateFromTime t + 1))
      (TimeWithinDay t)) = UTC tz (t + msPerDay)"
    by (simp only: MakeDay_roundtrip)
  then show ?thesis
    by (simp only: setDate_def getDate_def Let_def t_def)
qed

lemma setDate_later: "d < setDate tz d (getDate tz d + 1)"
proof -
  have "LocalTime tz d + msPerDay - standard tz - msPerHour
      \<le> UTC tz (LocalTime tz d + msPerDay)"
    by (rule UTC_ge)
  moreover have "d + standard tz \<le> LocalTime tz d"
    using LocalTZA_ge [of tz d] by (simp add: LocalTime_def)
  ultimately show ?thesis
    by (simp add: setDate_local msPerDay_def msPerHour_def)
qed

text \<open>A zone without daylight saving time has one offset.\<close>

lemma fixed_zone:
  "LocalTime (Zone k []) t = t + k" "UTC (Zone k []) t = t - k"
  by (simp_all add: LocalTime_def UTC_def LocalTZA_def inDST_def)

lemma setDate_next: "setDate (Zone k []) d (getDate (Zone k []) d + 1) = d + msPerDay"
  by (simp add: setDate_local fixed_zone)

lemma newDate_components:
  assumes "DayFromYear 100 \<le> Day (LocalTime tz d)"
  shows "newDate tz (getFullYear tz d) (getMonth tz d) (getDate tz d)
           = UTC tz (Day (LocalTime tz d) * msPerDay)"
proof -
  have "100 \<le> YearFromTime (LocalTime tz d)"
    unfolding YearFromTime_def using assms by (rule YearFromDay_ge)
  then have "(if 0 \<le> getFullYear tz d \<and> getFullYear tz d \<le> 99
               then 1900 + getFullYear tz d else getFullYear tz d) = getFullYear tz d"
    by (simp add: getFullYear_def)
  moreover have "MakeDay (getFullYear tz d) (getMonth tz d) (getDate tz d) = Day (LocalTime tz d)"
    using MakeDay_roundtrip [of "LocalTime tz d" 0]
    by (simp add: getFullYear_def getMonth_def getDate_def)
  ultimately show ?thesis
    by (simp only: newDate_def Let_def) (simp add: MakeDate_def)
qed

section \<open>Strings\<close>

text \<open>
  Strings are lists of characters. \<open>String\<close> is the conversion of an integer to its
  decimal text, which is what \<open>String(n)\<close> and template literals give for the integers
  below \<open>2^53\<close> in magnitude, those that the methods of \<open>Date\<close> return among them;
  \<open>padStart\<close> and \<open>join\<close> are the methods of the same names.
\<close>

definition digitChar :: "nat \<Rightarrow> char" where
  "digitChar n = ''0123456789'' ! n"

fun showNat :: "nat \<Rightarrow> string" where
  "showNat n = (if n < 10 then [digitChar n] else showNat (n div 10) @ [digitChar (n mod 10)])"

declare showNat.simps [simp del]

definition String :: "int \<Rightarrow> string" where
  "String i = (if i < 0 then ''-'' @ showNat (nat (- i)) else showNat (nat i))"

definition padStart :: "nat \<Rightarrow> char \<Rightarrow> string \<Rightarrow> string" where
  "padStart n c s = replicate (n - length s) c @ s"

fun join :: "string \<Rightarrow> string list \<Rightarrow> string" where
  "join sep [] = []"
| "join sep [x] = x"
| "join sep (x # y # ys) = x @ sep @ join sep (y # ys)"

text \<open>\<open>s.replace(/c/g, r)\<close> for a single character \<open>c\<close>.\<close>

definition replaceChar :: "char \<Rightarrow> string \<Rightarrow> string \<Rightarrow> string" where
  "replaceChar c r s = concat (map (\<lambda>x. if x = c then r else [x]) s)"

definition escHTML :: "string \<Rightarrow> string" where
  "escHTML s =
     concat (map (\<lambda>c.
       if c = CHR ''&'' then ''&amp;''
       else if c = CHR ''<'' then ''&lt;''
       else if c = CHR ''>'' then ''&gt;''
       else if c = CHR 0x22 then ''&quot;''
       else if c = CHR 0x27 then ''&#39;''
       else [c]) s)"

definition isWhiteSpace :: "char \<Rightarrow> bool" where
  "isWhiteSpace c =
     (c \<in> set [CHR '' '', CHR 0x09, CHR 0x0A, CHR 0x0B, CHR 0x0C, CHR 0x0D, CHR 0xA0])"

definition isDigit :: "char \<Rightarrow> bool" where
  "isDigit c = (c \<in> set ''0123456789'')"

definition digitValue :: "char \<Rightarrow> int" where
  "digitValue c = int (of_char c) - 48"

text \<open>The number that a text of decimal digits denotes.\<close>

definition digitsValue :: "string \<Rightarrow> int" where
  "digitsValue ds = foldl (\<lambda>n c. 10 * n + digitValue c) 0 ds"

section \<open>Numbers\<close>

text \<open>
  The numbers of the program are IEEE 754 doubles. The start number, the count per day and
  the counters are set from \<open>parseInt\<close> and from sums and differences of such numbers, so
  they are integral or infinite: a number is modelled as an integer (which stands for the
  double of that value), an infinity or NaN. Negative zero is identified with zero, which
  addition, the comparisons and the conversion to text of the program do not tell apart.
\<close>

datatype number = Num int | PosInfinity | NegInfinity | NaN

fun bitLength :: "nat \<Rightarrow> nat" where
  "bitLength n = (if n = 0 then 0 else Suc (bitLength (n div 2)))"

declare bitLength.simps [simp del]

text \<open>
  The natural number with at most 53 significant bits that is nearest to \<open>a\<close>, the even one
  of two that are equally near (roundTiesToEven, with no bound on the exponent).
\<close>

definition roundTiesToEven :: "nat \<Rightarrow> nat" where
  "roundTiesToEven a =
     (let e = bitLength a - 53;
          q = a div 2 ^ e;
          r = a mod 2 ^ e
      in (if 2 * r > 2 ^ e \<or> (2 * r = 2 ^ e \<and> odd q) then q + 1 else q) * 2 ^ e)"

text \<open>The Number value for an integer: the nearest double, infinite from \<open>2^1024\<close>.\<close>

definition numberValue :: "int \<Rightarrow> number" where
  "numberValue n =
     (let m = roundTiesToEven (nat \<bar>n\<bar>)
      in if m \<ge> 2 ^ 1024 then (if n < 0 then NegInfinity else PosInfinity)
         else Num (if n < 0 then - int m else int m))"

text \<open>\<open>x + y\<close>, \<open>- x\<close> and \<open>x - y\<close> on numbers.\<close>

fun Number_add :: "number \<Rightarrow> number \<Rightarrow> number" where
  "Number_add NaN y = NaN"
| "Number_add x NaN = NaN"
| "Number_add PosInfinity NegInfinity = NaN"
| "Number_add NegInfinity PosInfinity = NaN"
| "Number_add PosInfinity y = PosInfinity"
| "Number_add x PosInfinity = PosInfinity"
| "Number_add NegInfinity y = NegInfinity"
| "Number_add x NegInfinity = NegInfinity"
| "Number_add (Num a) (Num b) = numberValue (a + b)"

fun Number_unaryMinus :: "number \<Rightarrow> number" where
  "Number_unaryMinus (Num a) = Num (- a)"
| "Number_unaryMinus PosInfinity = NegInfinity"
| "Number_unaryMinus NegInfinity = PosInfinity"
| "Number_unaryMinus NaN = NaN"

definition Number_subtract :: "number \<Rightarrow> number \<Rightarrow> number" where
  "Number_subtract x y = Number_add x (Number_unaryMinus y)"

text \<open>\<open>x >= k\<close> for an integer \<open>k\<close>, and \<open>isNaN\<close>.\<close>

fun greaterEqual :: "number \<Rightarrow> int \<Rightarrow> bool" where
  "greaterEqual (Num n) k = (k \<le> n)"
| "greaterEqual PosInfinity k = True"
| "greaterEqual NegInfinity k = False"
| "greaterEqual NaN k = False"

definition isNaN :: "number \<Rightarrow> bool" where
  "isNaN x = (x = NaN)"

text \<open>
  The conversion of a number to text, as a template literal does it (Number::toString of
  ECMA-262 with radix 10). Below \<open>2^53\<close> every integer is a double and its text is its
  decimal digits. From \<open>2^53\<close> the text comes from the integer with the fewest
  significant decimal digits whose Number value is the number, the nearest one if there
  are two (\<open>shortest\<close>; with \<open>k\<close> significant digits the two candidates are the multiples
  of the \<open>k\<close>-th power of ten from the top next to the number): its digits when it is
  below \<open>10^21\<close>, and the exponent form otherwise.
\<close>

definition candidate :: "nat \<Rightarrow> nat \<Rightarrow> nat option" where
  "candidate x k =
     (let step = 10 ^ (length (showNat x) - k);
          lo = (x div step) * step;
          hi = lo + step;
          okLo = (numberValue (int lo) = Num (int x));
          okHi = (numberValue (int hi) = Num (int x))
      in if okLo \<and> okHi then
           Some (if x - lo < hi - x then lo
                 else if hi - x < x - lo then hi
                 else if even (lo div step) then lo else hi)
         else if okLo then Some lo
         else if okHi then Some hi
         else None)"

definition shortest :: "nat \<Rightarrow> nat" where
  "shortest x =
     (case List.map_filter (candidate x) [1..<length (showNat x)] of
        [] \<Rightarrow> x
      | c # cs \<Rightarrow> c)"

definition exponentForm :: "nat \<Rightarrow> string" where
  "exponentForm c =
     (let ds = showNat c;
          s = rev (dropWhile (\<lambda>d. d = CHR ''0'') (rev ds))
      in (if length s = 1 then s else hd s # CHR ''.'' # tl s)
           @ ''e+'' @ showNat (length ds - 1))"

definition Number_toString :: "number \<Rightarrow> string" where
  "Number_toString x =
     (case x of
        NaN \<Rightarrow> ''NaN''
      | PosInfinity \<Rightarrow> ''Infinity''
      | NegInfinity \<Rightarrow> ''-Infinity''
      | Num n \<Rightarrow>
          (if \<bar>n\<bar> < 2 ^ 53 then String n
           else
             (let c = shortest (nat \<bar>n\<bar>)
              in (if n < 0 then ''-'' else [])
                   @ (if c < 10 ^ 21 then showNat c else exponentForm c))))"

text \<open>
  \<open>parseInt(val, 10)\<close>: the Number value for the integer that the leading digits denote,
  NaN when there is none. (ECMA-262 lets an implementation replace the digits after the
  twentieth by zeros; the value here is the correctly rounded one.)
\<close>

definition parseInt :: "string \<Rightarrow> number" where
  "parseInt val =
     (let s = dropWhile isWhiteSpace val;
          sign = (if s \<noteq> [] \<and> hd s = CHR ''-'' then - 1 else 1);
          r = (if s \<noteq> [] \<and> (hd s = CHR ''-'' \<or> hd s = CHR ''+'') then tl s else s);
          ds = takeWhile isDigit r
      in if ds = [] then NaN else numberValue (sign * digitsValue ds))"

section \<open>The planner's state\<close>

record Pattern =
  id' :: int
  subjectName :: string
  unit :: string
  startNum :: number
  countPerDay :: number
  days :: "int list"

datatype date_format = DayOnly | MonthDay

datatype alert =
    SelectDates
  | EndBeforeStart
  | SpanTooLong int
  | GenerateCalendarFirst
  | PdfFailed

datatype cell = Weekday nat | Blank | DayCell bool string string

record grid =
  title :: string
  subtitle :: string
  cells :: "cell list"

record container =
  node :: nat
  innerHTML :: grid

record canvas =
  width :: nat
  height :: nat

datatype error = Error string

record pdf_file =
  fileName :: string
  image :: canvas

record planner =
  startDate :: string
  endDate :: string
  plannerName :: string
  dateFormat :: date_format
  calendar :: "Date list"
  plans :: "string \<rightharpoonup> string"
  patterns :: "Pattern list"
  showPatternModal :: bool
  editingPattern :: Pattern
  alerts :: "alert list"
  console :: "error list"
  body :: "container list"
  created :: nat
  saved :: "pdf_file list"

text \<open>
  The last five fields are the environment the handlers act on: the messages shown by
  \<open>alert\<close>, the errors written by \<open>console.error\<close>, the children of \<open>document.body\<close>
  that the export attached, the number of elements created so far (each new element gets
  the next number as its identity) and the files handed to the browser by \<open>pdf.save\<close>.
\<close>

text \<open>
  The state when the component mounts. The planner's name and the subject and unit of the
  pattern under edit are texts of the user interface and are taken as parameters, as is
  \<open>Date.now()\<close> at that moment.
\<close>

definition initial :: "string \<Rightarrow> string \<Rightarrow> string \<Rightarrow> int \<Rightarrow> planner" where
  "initial name subject unit' now =
     \<lparr>startDate = [], endDate = [], plannerName = name, dateFormat = DayOnly,
      calendar = [], plans = Map.empty, patterns = [], showPatternModal = False,
      editingPattern =
        \<lparr>id' = now, subjectName = subject, unit = unit', startNum = Num 1,
         countPerDay = Num 1,
         days = []\<rparr>,
      alerts = [], console = [], body = [], created = 0, saved = []\<rparr>"

definition alert :: "alert \<Rightarrow> planner \<Rightarrow> planner" where
  "alert a st = st\<lparr>alerts := alerts st @ [a]\<rparr>"

section \<open>DateKey\<close>

definition dateKey :: "zone \<Rightarrow> Date \<Rightarrow> string" where
  "dateKey tz d =
     (let y = getFullYear tz d;
          m = padStart 2 CHR ''0'' (String (getMonth tz d + 1));
          day = padStart 2 CHR ''0'' (String (getDate tz d))
      in String y @ ''-'' @ m @ ''-'' @ day)"

text \<open>
  \<open>new Date(text)\<close> for a text of the form \<open>YYYY-MM-DD\<close>: ECMA-262 reads the
  date-only form as UTC midnight of that day. A day number up to 31 that the month does
  not have runs over into the next month, as in V8. For every other text the result here
  is \<open>None\<close>, the invalid date; the other forms that \<open>Date.parse\<close> accepts are outside
  the model.
\<close>

definition parseDate :: "string \<Rightarrow> Date option" where
  "parseDate s =
     (if length s = 10 \<and> s ! 4 = CHR ''-'' \<and> s ! 7 = CHR ''-''
         \<and> list_all isDigit (take 4 s) \<and> list_all isDigit (take 2 (drop 5 s))
         \<and> list_all isDigit (drop 8 s)
      then
        (let y = digitsValue (take 4 s);
             m = digitsValue (take 2 (drop 5 s));
             d = digitsValue (drop 8 s)
         in if 1 \<le> m \<and> m \<le> 12 \<and> 1 \<le> d \<and> d \<le> 31
            then Some (MakeDate (MakeDay y (m - 1) d) 0)
            else None)
      else None)"

section \<open>CalendarBuilder\<close>

text \<open>
  The loop \<open>for (let d = new Date(s); d <= e; ) { dates.push(new Date(d));
  d.setDate(d.getDate() + 1); }\<close> of \<open>generateCalendar\<close>.
\<close>

function datesLoop :: "zone \<Rightarrow> Date \<Rightarrow> Date \<Rightarrow> Date list" where
  "datesLoop tz d e =
     (if d \<le> e then d # datesLoop tz (setDate tz d (getDate tz d + 1)) e else [])"
  by pat_completeness auto
termination
proof (relation "measure (\<lambda>(tz, d, e). nat (e - d + 1))")
  show "wf (measure (\<lambda>(tz, d, e). nat (e - d + 1)))" by simp
next
  fix tz :: zone and d e :: int
  assume "d \<le> e"
  moreover have "d < setDate tz d (getDate tz d + 1)" by (rule setDate_later)
  ultimately show "((tz, setDate tz d (getDate tz d + 1), e), (tz, d, e))
               \<in> measure (\<lambda>(tz, d, e). nat (e - d + 1))"
    by simp
qed

declare datesLoop.simps [simp del]

text \<open>
  \<open>generateCalendar\<close>. The focus that the first check moves to the range button is not
  part of the state. When one of the two texts does not parse, the dates built from it
  are invalid: every comparison with an invalid date is false, so no check fires and the
  loop does not run, and the calendar becomes empty.
\<close>

definition generateCalendar :: "zone \<Rightarrow> planner \<Rightarrow> planner" where
  "generateCalendar tz st =
     (if startDate st = [] \<or> endDate st = [] then alert SelectDates st
      else
        (case (parseDate (startDate st), parseDate (endDate st)) of
           (Some start, Some end') \<Rightarrow>
             (let s = newDate tz (getFullYear tz start) (getMonth tz start) (getDate tz start);
                  e = newDate tz (getFullYear tz end') (getMonth tz end') (getDate tz end')
              in if e < s then alert EndBeforeStart st
                 else
                   (let maxSpan = 400;
                        days = (getTime e - getTime s) div (24 * 60 * 60 * 1000) + 1
                    in if days > maxSpan then alert (SpanTooLong maxSpan) st
                       else st\<lparr>calendar := datesLoop tz s e\<rparr>))
         | _ \<Rightarrow> st\<lparr>calendar := []\<rparr>))"

text \<open>
  The range picker's \<open>onSelect\<close>, for a range with the given ends (\<open>None\<close> for an
  end that is not set): it stores the \<open>dateKey\<close> of each end, or the empty text.
\<close>

definition onSelect :: "zone \<Rightarrow> Date option \<Rightarrow> Date option \<Rightarrow> planner \<Rightarrow> planner" where
  "onSelect tz f t st =
     st\<lparr>startDate := (case f of Some d \<Rightarrow> dateKey tz d | None \<Rightarrow> []),
        endDate := (case t of Some d \<Rightarrow> dateKey tz d | None \<Rightarrow> [])\<rparr>"

section \<open>PatternStore\<close>

fun findIndex :: "('a \<Rightarrow> bool) \<Rightarrow> 'a list \<Rightarrow> int" where
  "findIndex P [] = - 1"
| "findIndex P (x # xs) =
     (if P x then 0 else (let i = findIndex P xs in if i < 0 then - 1 else i + 1))"

text \<open>\<open>now\<close> is the value of \<open>Date.now()\<close> when the updater runs.\<close>

definition addOrUpdatePattern :: "int \<Rightarrow> planner \<Rightarrow> planner" where
  "addOrUpdatePattern now st =
     st\<lparr>patterns :=
          (let prev = patterns st;
               idx = findIndex (\<lambda>p. id' p = id' (editingPattern st)) prev
           in if idx \<ge> 0 then prev[nat idx := editingPattern st]
              else prev @ [(editingPattern st)\<lparr>id' := now\<rparr>]),
        showPatternModal := False\<rparr>"

definition editPattern :: "Pattern \<Rightarrow> planner \<Rightarrow> planner" where
  "editPattern p st = st\<lparr>editingPattern := p, showPatternModal := True\<rparr>"

definition removePattern :: "int \<Rightarrow> planner \<Rightarrow> planner" where
  "removePattern i st = st\<lparr>patterns := filter (\<lambda>p. id' p \<noteq> i) (patterns st)\<rparr>"

text \<open>
  The \<open>onChange\<close> and \<open>onBlur\<close> handlers of the count-per-day input and of the
  start-number input of the editor.
\<close>

definition countPerDay_onChange :: "string \<Rightarrow> planner \<Rightarrow> planner" where
  "countPerDay_onChange val st =
     (if val = [] then st\<lparr>editingPattern := (editingPattern st)\<lparr>countPerDay := Num 0\<rparr>\<rparr>
      else
        (let num = parseInt val
         in if \<not> isNaN num \<and> greaterEqual num 0
            then st\<lparr>editingPattern := (editingPattern st)\<lparr>countPerDay := num\<rparr>\<rparr>
            else st))"

definition countPerDay_onBlur :: "planner \<Rightarrow> planner" where
  "countPerDay_onBlur st =
     (if countPerDay (editingPattern st) = Num 0
      then st\<lparr>editingPattern := (editingPattern st)\<lparr>countPerDay := Num 1\<rparr>\<rparr>
      else st)"

definition startNum_onChange :: "string \<Rightarrow> planner \<Rightarrow> planner" where
  "startNum_onChange val st =
     (if val = [] then st\<lparr>editingPattern := (editingPattern st)\<lparr>startNum := Num 0\<rparr>\<rparr>
      else
        (let num = parseInt val
         in if \<not> isNaN num \<and> greaterEqual num 0
            then st\<lparr>editingPattern := (editingPattern st)\<lparr>startNum := num\<rparr>\<rparr>
            else st))"

definition startNum_onBlur :: "planner \<Rightarrow> planner" where
  "startNum_onBlur st =
     (if startNum (editingPattern st) = Num 0
      then st\<lparr>editingPattern := (editingPattern st)\<lparr>startNum := Num 1\<rparr>\<rparr>
      else st)"

section \<open>PlanResolver\<close>

definition shouldApply :: "Pattern \<Rightarrow> int \<Rightarrow> bool" where
  "shouldApply p weekday = (length (days p) = 0 \<or> weekday \<in> set (days p))"

definition displayText :: "Pattern \<Rightarrow> number \<Rightarrow> string" where
  "displayText p current =
     (if countPerDay p = Num 1
      then subjectName p @ '' '' @ Number_toString current @ unit p
      else
        (let start = current;
             end' = Number_subtract (Number_add current (countPerDay p)) (Num 1)
         in subjectName p @ '' '' @ Number_toString start @ ''-'' @ Number_toString end'
              @ unit p))"

text \<open>\<open>patterns.forEach((p) => { counters.set(p.id, p.startNum); })\<close> on a new map.\<close>

definition initCounters :: "Pattern list \<Rightarrow> (int \<rightharpoonup> number)" where
  "initCounters ps = fold (\<lambda>p counters. counters(id' p \<mapsto> startNum p)) ps Map.empty"

text \<open>
  The body of the inner \<open>patterns.forEach\<close>, on the day's lines and the counters. The
  lookup \<open>counters.get(p.id)!\<close> finds every identifier that \<open>initCounters\<close> has set.
\<close>

definition applyPattern ::
  "int \<Rightarrow> Pattern \<Rightarrow> string list \<times> (int \<rightharpoonup> number)
     \<Rightarrow> string list \<times> (int \<rightharpoonup> number)" where
  "applyPattern weekday p = (\<lambda>(lines, counters).
     if shouldApply p weekday then
       (let current = the (counters (id' p))
        in (lines @ [displayText p current],
            counters(id' p \<mapsto> Number_add current (countPerDay p))))
     else (lines, counters))"

text \<open>The body of the outer \<open>calendar.forEach\<close>, on the new plan map and the counters.\<close>

definition applyDate ::
  "zone \<Rightarrow> Pattern list \<Rightarrow> Date \<Rightarrow> (string \<rightharpoonup> string) \<times> (int \<rightharpoonup> number)
     \<Rightarrow> (string \<rightharpoonup> string) \<times> (int \<rightharpoonup> number)" where
  "applyDate tz ps date = (\<lambda>(newPlans, counters).
     (let key = dateKey tz date;
          weekday = getDay tz date;
          (lines, counters') = fold (applyPattern weekday) ps ([], counters)
      in (if length lines \<noteq> 0 then newPlans(key \<mapsto> join [CHR 0x0A] lines) else newPlans,
          counters')))"

definition resolve :: "zone \<Rightarrow> Date list \<Rightarrow> Pattern list \<Rightarrow> (string \<rightharpoonup> string)" where
  "resolve tz cal ps = fst (fold (applyDate tz ps) cal (Map.empty, initCounters ps))"

definition applyAllPatterns :: "zone \<Rightarrow> planner \<Rightarrow> planner" where
  "applyAllPatterns tz st =
     (if length (calendar st) = 0 then alert GenerateCalendarFirst st
      else st\<lparr>plans := resolve tz (calendar st) (patterns st)\<rparr>)"

text \<open>Editing a day's text field: \<open>setPlans((prev) => ({ ...prev, [key]: v }))\<close>.\<close>

definition editPlan :: "string \<Rightarrow> string \<Rightarrow> planner \<Rightarrow> planner" where
  "editPlan key v st = st\<lparr>plans := (plans st)(key \<mapsto> v)\<rparr>"

section \<open>GridLayout\<close>

record gridMeta =
  leading :: int
  trailing :: int

definition gridDates :: "zone \<Rightarrow> Date list \<Rightarrow> gridMeta" where
  "gridDates tz cal =
     (if length cal = 0 then \<lparr>leading = 0, trailing = 0\<rparr>
      else
        (let leading' = getDay tz (hd cal);
             trailing' = (7 - ((leading' + int (length cal)) mod 7)) mod 7
         in \<lparr>leading = leading', trailing = trailing'\<rparr>))"

section \<open>ExportRenderer\<close>

text \<open>
  The markup that \<open>exportToPDF\<close> writes is kept as the values it interpolates: the title,
  the line with the two dates and the cells of the seven-column grid in order (the
  weekday headers, the blank cells and, for each day, whether it is a Sunday, the date
  label and the plan text). \<open>html2canvas\<close> and the assembly and saving of the document by
  \<open>jsPDF\<close> are parameters: each returns its result or the error it throws.
\<close>

text \<open>date-fns \<open>format\<close> with the patterns \<open>yyyyMMdd\<close> and \<open>yyyy.MM.dd\<close>.\<close>

definition format :: "zone \<Rightarrow> Date \<Rightarrow> string \<Rightarrow> string" where
  "format tz d sep =
     padStart 4 CHR ''0'' (String (getFullYear tz d)) @ sep
       @ padStart 2 CHR ''0'' (String (getMonth tz d + 1)) @ sep
       @ padStart 2 CHR ''0'' (String (getDate tz d))"

definition planText :: "(string \<rightharpoonup> string) \<Rightarrow> string \<Rightarrow> string" where
  "planText plans' key =
     replaceChar (CHR 0x0A) ''<br>''
       (replaceChar CHR ''>'' ''&gt;''
         (replaceChar CHR ''<'' ''&lt;'' (case plans' key of Some v \<Rightarrow> v | None \<Rightarrow> [])))"

definition dateDisplay :: "date_format \<Rightarrow> zone \<Rightarrow> Date \<Rightarrow> string" where
  "dateDisplay fmt tz date =
     (if fmt = MonthDay then String (getMonth tz date + 1) @ ''/'' @ String (getDate tz date)
      else String (getDate tz date))"

definition dayCell :: "zone \<Rightarrow> planner \<Rightarrow> Date \<Rightarrow> cell" where
  "dayCell tz st date =
     (let key = dateKey tz date;
          isSunday = (getDay tz date = 0)
      in DayCell isSunday (dateDisplay (dateFormat st) tz date) (planText (plans st) key))"

definition gridHTML :: "zone \<Rightarrow> planner \<Rightarrow> grid" where
  "gridHTML tz st =
     (let firstDate = hd (calendar st);
          lastDate = last (calendar st);
          leading' = getDay tz (hd (calendar st));
          trailing' = (7 - ((leading' + int (length (calendar st))) mod 7)) mod 7
      in \<lparr>title = plannerName st,
          subtitle = format tz firstDate ''.'' @ '' - '' @ format tz lastDate ''.'',
          cells = map Weekday [0..<7] @ replicate (nat leading') Blank
                    @ map (dayCell tz st) (calendar st) @ replicate (nat trailing') Blank\<rparr>)"

definition removeChild :: "container \<Rightarrow> container list \<Rightarrow> container list" where
  "removeChild c children = filter (\<lambda>x. node x \<noteq> node c) children"

text \<open>The \<open>catch\<close> block of \<open>exportToPDF\<close>.\<close>

definition catch :: "error \<Rightarrow> planner \<Rightarrow> planner" where
  "catch err st = alert PdfFailed (st\<lparr>console := console st @ [err]\<rparr>)"

definition exportToPDF ::
  "zone \<Rightarrow> (container \<Rightarrow> error + canvas) \<Rightarrow> (canvas \<Rightarrow> string \<Rightarrow> error + pdf_file)
     \<Rightarrow> planner \<Rightarrow> planner" where
  "exportToPDF tz html2canvas jsPDF st =
     (if length (calendar st) = 0 then alert GenerateCalendarFirst st
      else
        (let firstDate = hd (calendar st);
             fileName' = plannerName st @ ''_'' @ format tz firstDate [] @ ''.pdf'';
             pdfContainer = \<lparr>node = created st, innerHTML = gridHTML tz st\<rparr>;
             st1 = st\<lparr>created := created st + 1, body := body st @ [pdfContainer]\<rparr>
         in case html2canvas pdfContainer of
              Inl err \<Rightarrow> catch err st1
            | Inr canvas' \<Rightarrow>
                (let st2 = st1\<lparr>body := removeChild pdfContainer (body st1)\<rparr>
                 in case jsPDF canvas' fileName' of
                      Inl err \<Rightarrow> catch err st2
                    | Inr file \<Rightarrow> st2\<lparr>saved := saved st2 @ [file]\<rparr>)))"

section \<open>The specification's notions\<close>

text \<open>
  The definitions of this section are not translations of source functions: they state,
  in the specification's words, what the theorems below compare the source with.
\<close>

subsection \<open>The resolution algorithm as the specification words it\<close>

text \<open>
  One counter per pattern, initialized to the pattern's start number; the days in order
  and, within a day, the patterns in store order; a pattern fires iff its set of active
  weekdays is empty or contains the day's weekday; on firing it emits its line and its
  counter advances by the count per day; the fired lines of a day, joined by newlines,
  are the day's entry, and a day without fired lines gets none. The start number, the
  count per day and the counters of the specification are integers, added exactly and
  written in decimal digits; \<open>spec_integer\<close> reads a pattern's number as one.
\<close>

fun spec_integer :: "number \<Rightarrow> int" where
  "spec_integer (Num n) = n"
| "spec_integer PosInfinity = 0"
| "spec_integer NegInfinity = 0"
| "spec_integer NaN = 0"

definition spec_fires :: "Pattern \<Rightarrow> int \<Rightarrow> bool" where
  "spec_fires p weekday \<longleftrightarrow> set (days p) = {} \<or> weekday \<in> set (days p)"

definition spec_line :: "Pattern \<Rightarrow> int \<Rightarrow> string" where
  "spec_line p counter =
     (if spec_integer (countPerDay p) = 1 then subjectName p @ '' '' @ String counter @ unit p
      else subjectName p @ '' '' @ String counter @ ''-''
             @ String (counter + spec_integer (countPerDay p) - 1) @ unit p)"

fun spec_day :: "int \<Rightarrow> (Pattern \<times> int) list \<Rightarrow> string list \<times> (Pattern \<times> int) list" where
  "spec_day weekday [] = ([], [])"
| "spec_day weekday ((p, counter) # rest) =
     (let (lines, rest') = spec_day weekday rest in
      if spec_fires p weekday
      then (spec_line p counter # lines, (p, counter + spec_integer (countPerDay p)) # rest')
      else (lines, (p, counter) # rest'))"

fun spec_days ::
  "zone \<Rightarrow> Date list \<Rightarrow> (Pattern \<times> int) list \<Rightarrow> (string \<rightharpoonup> string) \<Rightarrow> (string \<rightharpoonup> string)" where
  "spec_days tz [] counters plan = plan"
| "spec_days tz (d # ds) counters plan =
     (let (lines, counters') = spec_day (getDay tz d) counters in
      spec_days tz ds counters'
        (if lines = [] then plan else plan(dateKey tz d \<mapsto> join [CHR 0x0A] lines)))"

definition spec_resolve :: "zone \<Rightarrow> Date list \<Rightarrow> Pattern list \<Rightarrow> (string \<rightharpoonup> string)" where
  "spec_resolve tz ds ps = spec_days tz ds (map (\<lambda>p. (p, spec_integer (startNum p))) ps) Map.empty"

text \<open>
  The patterns whose numbers the program keeps exact over \<open>n\<close> days: the start number
  and the count per day are integers that are not negative (the editor accepts no
  others), and the start number plus \<open>n\<close> times the count per day is below \<open>2^53\<close>.
\<close>

definition withinSafeRange :: "nat \<Rightarrow> Pattern \<Rightarrow> bool" where
  "withinSafeRange n p =
     (case (startNum p, countPerDay p) of
        (Num s, Num c) \<Rightarrow> 0 \<le> s \<and> 0 \<le> c \<and> s + c * int n < 2 ^ 53
      | _ \<Rightarrow> False)"

subsection \<open>Continuous numbering\<close>

text \<open>
  The number a pattern has reached after some earlier days: from its start number, its
  count per day added (as the program adds numbers) once for each earlier day on which
  it fires. The lines of a day, given the days before it: one line per firing pattern, in
  store order, each numbered from what that pattern has reached. \<open>closedRun\<close> builds a
  plan map from these lines, day by day.
\<close>

definition counterAt :: "zone \<Rightarrow> Pattern \<Rightarrow> Date list \<Rightarrow> number" where
  "counterAt tz p earlier =
     fold (\<lambda>d c. if shouldApply p (getDay tz d) then Number_add c (countPerDay p) else c)
       earlier (startNum p)"

definition linesOn :: "zone \<Rightarrow> Pattern list \<Rightarrow> Date list \<Rightarrow> Date \<Rightarrow> string list" where
  "linesOn tz ps earlier d =
     map (\<lambda>p. displayText p (counterAt tz p earlier))
       (filter (\<lambda>p. shouldApply p (getDay tz d)) ps)"

fun closedRun ::
  "zone \<Rightarrow> Pattern list \<Rightarrow> Date list \<Rightarrow> Date list \<Rightarrow> (string \<rightharpoonup> string) \<Rightarrow> (string \<rightharpoonup> string)" where
  "closedRun tz ps earlier [] plan = plan"
| "closedRun tz ps earlier (d # ds) plan =
     closedRun tz ps (earlier @ [d]) ds
       (if linesOn tz ps earlier d = [] then plan
        else plan(dateKey tz d \<mapsto> join [CHR 0x0A] (linesOn tz ps earlier d)))"

subsection \<open>Calendar days and ranges\<close>

text \<open>A calendar day as the specification speaks of it: year, month (1 to 12), day.\<close>

record ymd =
  year :: int
  month :: int
  day :: int

text \<open>The real days with a four-digit year.\<close>

definition validDate :: "ymd \<Rightarrow> bool" where
  "validDate c \<longleftrightarrow>
     1000 \<le> year c \<and> year c \<le> 9999 \<and> 1 \<le> month c \<and> month c \<le> 12
     \<and> 1 \<le> day c \<and> day c \<le> daysInMonth (year c) (month c)"

text \<open>The text \<open>YYYY-MM-DD\<close> of a day, and the text of an end of the range (empty when absent).\<close>

definition isoText :: "ymd \<Rightarrow> string" where
  "isoText c =
     String (year c) @ ''-'' @ padStart 2 CHR ''0'' (String (month c)) @ ''-''
       @ padStart 2 CHR ''0'' (String (day c))"

definition rangeText :: "ymd option \<Rightarrow> string" where
  "rangeText c = (case c of Some c' \<Rightarrow> isoText c' | None \<Rightarrow> [])"

text \<open>The local calendar day that a \<open>Date\<close> falls on.\<close>

definition localYMD :: "zone \<Rightarrow> Date \<Rightarrow> ymd" where
  "localYMD tz d = \<lparr>year = getFullYear tz d, month = getMonth tz d + 1, day = getDate tz d\<rparr>"

text \<open>The number of a day, counted from 1970-01-01.\<close>

definition dayNumber :: "ymd \<Rightarrow> int" where
  "dayNumber c = MakeDay (year c) (month c - 1) (day c)"

text \<open>The number of the local calendar day that a \<open>Date\<close> falls on.\<close>

definition localDay :: "zone \<Rightarrow> Date \<Rightarrow> int" where
  "localDay tz d = Day (LocalTime tz d)"

text \<open>
  The validation of the range as the specification words it: it fails when start or end
  is absent, when the end is before the start, and when the inclusive number of days is
  above 400.
\<close>

definition spec_rangeInvalid :: "ymd option \<Rightarrow> ymd option \<Rightarrow> bool" where
  "spec_rangeInvalid start end' \<longleftrightarrow>
     (case (start, end') of
        (Some s, Some e) \<Rightarrow> dayNumber e < dayNumber s \<or> 400 < dayNumber e - dayNumber s + 1
      | _ \<Rightarrow> True)"

subsection \<open>The plan text of an exported cell\<close>

text \<open>
  The stored text with the structural characters escaped (by \<open>escHTML\<close>, which the
  source defines) and each newline turned into a line break.
\<close>

definition spec_planText :: "(string \<rightharpoonup> string) \<Rightarrow> string \<Rightarrow> string" where
  "spec_planText plans' key =
     replaceChar (CHR 0x0A) ''<br>'' (escHTML (case plans' key of Some v \<Rightarrow> v | None \<Rightarrow> []))"

section \<open>Example inputs\<close>

text \<open>
  Three zones: nine hours east of UTC without daylight saving time (Asia/Seoul), five
  hours west of UTC (America/New_York, in winter), and one hour east of UTC with the
  daylight saving switches of 2025 and 2026, at 01:00 UTC on the last Sundays of March
  and October (Europe/Berlin).
\<close>

definition seoul :: zone where
  "seoul = Zone 32400000 []"

definition newYork :: zone where
  "newYork = Zone (- 18000000) []"

definition berlin :: zone where
  "berlin = Zone 3600000 [1743296400000, 1761440400000, 1774746000000, 1792890000000]"

text \<open>
  The eight days from Monday 2025-01-06 to Monday 2025-01-13, at local midnight in
  \<open>seoul\<close>; a pattern that is active on Mondays only and one that is active every day.
\<close>

definition twoMondays :: "Date list" where
  "twoMondays = [1736089200000, 1736175600000, 1736262000000, 1736348400000, 1736434800000,
                 1736521200000, 1736607600000, 1736694000000]"

definition monday :: Pattern where
  "monday = \<lparr>id' = 7, subjectName = ''X'', unit = [], startNum = Num 1,
              countPerDay = Num 2, days = [1]\<rparr>"

definition daily :: Pattern where
  "daily = \<lparr>id' = 8, subjectName = ''Y'', unit = ''p'', startNum = Num 10,
             countPerDay = Num 1, days = []\<rparr>"

text \<open>A state with those days, the Monday pattern and a manual entry on a Wednesday.\<close>

definition example :: planner where
  "example = editPlan ''2025-01-08'' ''manual''
     ((initial ''P'' ''X'' [] 0)\<lparr>calendar := twoMondays, patterns := [monday]\<rparr>)"

text \<open>
  A pattern that is active on Mondays and Thursdays, and the state with the same days and
  manual entry and the two patterns \<open>monday\<close> and \<open>monThu\<close>.
\<close>

definition monThu :: Pattern where
  "monThu = \<lparr>id' = 9, subjectName = ''Y'', unit = ''p'', startNum = Num 10,
              countPerDay = Num 1, days = [1, 4]\<rparr>"

definition twoPatterns :: planner where
  "twoPatterns = editPlan ''2025-01-08'' ''manual''
     ((initial ''P'' ''X'' [] 0)\<lparr>calendar := twoMondays, patterns := [monday, monThu]\<rparr>)"

text \<open>
  The state after \<open>9007199254740992\<close> (that is \<open>2^53\<close>) has been typed into the
  start-number input and the pattern saved, with the first two of the eight days as
  calendar.
\<close>

definition typedLarge :: planner where
  "typedLarge =
     (addOrUpdatePattern 9
        (startNum_onChange ''9007199254740992'' (initial ''P'' ''X'' [] 0)))
       \<lparr>calendar := take 2 twoMondays\<rparr>"

text \<open>
  Three ranges: 2025-01-01 to 2025-01-03; 2025-01-01 to 2026-03-01 (425 days), with a
  manual entry; and 2025-03-01 to 2026-04-05 (401 days).
\<close>

definition threeDays :: planner where
  "threeDays = (initial ''P'' ''X'' [] 0)
     \<lparr>startDate := ''2025-01-01'', endDate := ''2025-01-03''\<rparr>"

definition tooLong :: planner where
  "tooLong = editPlan ''2025-01-01'' ''manual''
     ((initial ''P'' ''X'' [] 0)
       \<lparr>startDate := ''2025-01-01'', endDate := ''2026-03-01''\<rparr>)"

definition overAYear :: planner where
  "overAYear = (initial ''P'' ''X'' [] 0)
     \<lparr>startDate := ''2025-03-01'', endDate := ''2026-04-05''\<rparr>"

text \<open>The editor after the count-per-day input has been cleared, with no blur yet.\<close>

definition cleared :: planner where
  "cleared = countPerDay_onChange [] (initial ''P'' ''X'' [] 0)"

section \<open>Evaluation\<close>

text \<open>The equations that evaluate dates, texts and the resolver on concrete inputs.\<close>

lemmas date_eval =
  dateKey_def getFullYear_def getMonth_def getDate_def getDay_def LocalTime_def UTC_def
  LocalTZA_def inDST_def msPerHour_def
  YearFromTime_def YearFromDay_def yearGuess_def Day_def TimeWithinDay_def msPerDay_def
  yearUp.simps DayFromYear_def MonthFromTime_def DayWithinYear_def InLeapYear_def
  DaysInYear_def DateFromTime_def monthStart_def WeekDay_def MakeDay_def MakeDate_def
  newDate_def setDate_def getTime_def

lemmas string_eval = String_def showNat.simps digitChar_def padStart_def

lemmas resolve_eval =
  resolve_def applyDate_def applyPattern_def initCounters_def shouldApply_def
  displayText_def Let_def

section \<open>Facts about texts of numbers and days\<close>

lemma digitChar_facts:
  assumes "n < 10"
  shows "isDigit (digitChar n)" and "digitValue (digitChar n) = int n"
proof -
  from assms have "n \<in> {0, 1, 2, 3, 4, 5, 6, 7, 8, 9}"
    by (simp only: insert_iff empty_iff) arith
  then show "isDigit (digitChar n)" and "digitValue (digitChar n) = int n"
    by (auto simp: digitChar_def isDigit_def digitValue_def)
qed

lemma digitsValue_snoc: "digitsValue (ds @ [c]) = 10 * digitsValue ds + digitValue c"
  by (simp add: digitsValue_def)

lemma showNat_digits: "list_all isDigit (showNat n)"
proof (induction n rule: showNat.induct)
  case (1 n)
  show ?case
  proof (cases "n < 10")
    case True
    then show ?thesis by (subst showNat.simps) (simp add: digitChar_facts)
  next
    case False
    have "n mod 10 < 10" by simp
    then show ?thesis
      using False "1.IH" by (subst showNat.simps) (simp add: digitChar_facts)
  qed
qed

lemma digitsValue_showNat: "digitsValue (showNat n) = int n"
proof (induction n rule: showNat.induct)
  case (1 n)
  show ?case
  proof (cases "n < 10")
    case True
    then show ?thesis
      by (subst showNat.simps) (simp add: digitsValue_def digitChar_facts)
  next
    case False
    have m: "n mod 10 < 10" by simp
    have "int n = 10 * int (n div 10) + int (n mod 10)"
      by (metis mult_div_mod_eq of_nat_add of_nat_mult of_nat_numeral)
    then show ?thesis
      using False "1.IH" digitChar_facts(2) [OF m]
      by (subst showNat.simps) (simp add: digitsValue_snoc)
  qed
qed

lemma showNat_length:
  "n < 10 \<Longrightarrow> length (showNat n) = 1"
  "10 \<le> n \<Longrightarrow> n < 100 \<Longrightarrow> length (showNat n) = 2"
  "100 \<le> n \<Longrightarrow> n < 1000 \<Longrightarrow> length (showNat n) = 3"
  "1000 \<le> n \<Longrightarrow> n < 10000 \<Longrightarrow> length (showNat n) = 4"
proof -
  show 1: "length (showNat n) = 1" if "n < 10" for n
    using that by (subst showNat.simps) simp
  show 2: "length (showNat n) = 2" if "10 \<le> n" "n < 100" for n
  proof -
    have "n div 10 < 10" using that by simp
    then show ?thesis using that 1 [of "n div 10"] by (subst showNat.simps) simp
  qed
  show 3: "length (showNat n) = 3" if "100 \<le> n" "n < 1000" for n
  proof -
    have "10 \<le> n div 10" "n div 10 < 100" using that by simp_all
    then show ?thesis using that 2 [of "n div 10"] by (subst showNat.simps) simp
  qed
  show "length (showNat n) = 4" if "1000 \<le> n" "n < 10000" for n
  proof -
    have "100 \<le> n div 10" "n div 10 < 1000" using that by simp_all
    then show ?thesis using that 3 [of "n div 10"] by (subst showNat.simps) simp
  qed
qed

lemma showNat_nonempty: "showNat n \<noteq> []"
  by (subst showNat.simps) simp

lemma showNat_inj: "showNat m = showNat n \<Longrightarrow> m = n"
  by (metis digitsValue_showNat of_nat_eq_iff)

lemma showNat_no_minus: "showNat n \<noteq> CHR ''-'' # s"
proof
  assume "showNat n = CHR ''-'' # s"
  then have "isDigit CHR ''-''" using showNat_digits [of n] by simp
  then show False by (simp add: isDigit_def)
qed

lemma String_inj:
  assumes "String i = String j"
  shows "i = j"
proof (cases "i < 0"; cases "j < 0")
  assume "i < 0" "j < 0"
  then have "showNat (nat (- i)) = showNat (nat (- j))"
    using assms by (simp add: String_def)
  then have "nat (- i) = nat (- j)" by (rule showNat_inj)
  then show ?thesis using \<open>i < 0\<close> \<open>j < 0\<close> by arith
next
  assume "i < 0" "\<not> j < 0"
  then have "showNat (nat j) = CHR ''-'' # showNat (nat (- i))"
    using assms by (simp add: String_def)
  then show ?thesis using showNat_no_minus by blast
next
  assume "\<not> i < 0" "j < 0"
  then have "showNat (nat i) = CHR ''-'' # showNat (nat (- j))"
    using assms by (simp add: String_def)
  then show ?thesis using showNat_no_minus by blast
next
  assume "\<not> i < 0" "\<not> j < 0"
  then have "showNat (nat i) = showNat (nat j)"
    using assms by (simp add: String_def)
  then have "nat i = nat j" by (rule showNat_inj)
  then show ?thesis using \<open>\<not> i < 0\<close> \<open>\<not> j < 0\<close> by arith
qed

text \<open>A number from 1 to 99, padded to two characters.\<close>

lemma pad2:
  assumes "1 \<le> k" and "k \<le> 99"
  shows "length (padStart 2 CHR ''0'' (String k)) = 2"
    and "list_all isDigit (padStart 2 CHR ''0'' (String k))"
    and "digitsValue (padStart 2 CHR ''0'' (String k)) = k"
proof -
  have s: "String k = showNat (nat k)" using assms by (simp add: String_def)
  have len: "length (showNat (nat k)) = 1 \<or> length (showNat (nat k)) = 2"
  proof (cases "k < 10")
    case True
    then have "nat k < 10" by simp
    then show ?thesis by (simp add: showNat_length(1))
  next
    case False
    then have "10 \<le> nat k" "nat k < 100" using assms by simp_all
    then show ?thesis by (simp add: showNat_length(2))
  qed
  have zero: "isDigit CHR ''0''" by (simp add: isDigit_def)
  have zeros: "digitsValue (replicate n CHR ''0'' @ ds) = digitsValue ds" for n ds
  proof -
    have "foldl (\<lambda>n c. 10 * n + digitValue c) 0 (replicate n CHR ''0'') = 0"
      by (induction n) (simp_all add: digitValue_def)
    then show ?thesis by (simp add: digitsValue_def)
  qed
  show "length (padStart 2 CHR ''0'' (String k)) = 2"
    using len by (auto simp: padStart_def s)
  show "list_all isDigit (padStart 2 CHR ''0'' (String k))"
    using showNat_digits [of "nat k"] zero by (auto simp: padStart_def s list_all_iff)
  show "digitsValue (padStart 2 CHR ''0'' (String k)) = k"
    using assms by (simp add: padStart_def s zeros digitsValue_showNat)
qed

lemma pad2_inj:
  assumes "1 \<le> j" "j \<le> 99" "1 \<le> k" "k \<le> 99"
    and "padStart 2 CHR ''0'' (String j) = padStart 2 CHR ''0'' (String k)"
  shows "j = k"
  using pad2(3) [OF assms(1,2)] pad2(3) [OF assms(3,4)] assms(5) by metis

lemma year4:
  assumes "1000 \<le> y" and "y \<le> 9999"
  shows "length (String y) = 4" and "list_all isDigit (String y)"
    and "digitsValue (String y) = y"
proof -
  have s: "String y = showNat (nat y)" using assms by (simp add: String_def)
  show "length (String y) = 4"
    unfolding s using assms by (intro showNat_length(4)) simp_all
  show "list_all isDigit (String y)" unfolding s by (rule showNat_digits)
  show "digitsValue (String y) = y" unfolding s using assms by (simp add: digitsValue_showNat)
qed

lemma length2:
  assumes "length xs = 2"
  shows "\<exists>a b. xs = [a, b]"
proof -
  have "length xs = Suc (Suc 0)" using assms by simp
  then show ?thesis by (auto simp: length_Suc_conv)
qed

lemma length4:
  assumes "length xs = 4"
  shows "\<exists>a b c d. xs = [a, b, c, d]"
proof -
  have "length xs = Suc (Suc (Suc (Suc 0)))" using assms by simp
  then show ?thesis by (auto simp: length_Suc_conv)
qed


lemma parseDate_isoText:
  assumes "validDate c"
  shows "parseDate (isoText c) = Some (dayNumber c * msPerDay)"
proof -
  have y: "1000 \<le> year c" "year c \<le> 9999" and m: "1 \<le> month c" "month c \<le> 12"
    and d: "1 \<le> day c" "day c \<le> daysInMonth (year c) (month c)"
    using assms by (simp_all add: validDate_def)
  have d31: "day c \<le> 31" using d(2) by (simp add: daysInMonth_def split: if_splits)
  have d99: "day c \<le> 99" using d31 by simp
  have m99: "month c \<le> 99" using m(2) by simp
  obtain y1 y2 y3 y4 where Y: "String (year c) = [y1, y2, y3, y4]"
    using length4 [OF year4(1) [OF y]] by blast
  obtain m1 m2 where M: "padStart 2 CHR ''0'' (String (month c)) = [m1, m2]"
    using length2 [OF pad2(1) [OF m(1) m99]] by blast
  obtain d1 d2 where D: "padStart 2 CHR ''0'' (String (day c)) = [d1, d2]"
    using length2 [OF pad2(1) [OF d(1) d99]] by blast
  have iso: "isoText c = [y1, y2, y3, y4, CHR ''-'', m1, m2, CHR ''-'', d1, d2]"
    by (simp add: isoText_def Y M D)
  have digits: "list_all isDigit [y1, y2, y3, y4]" "list_all isDigit [m1, m2]"
    "list_all isDigit [d1, d2]"
    using year4(2) [OF y] pad2(2) [OF m(1) m99] pad2(2) [OF d(1) d99]
    by (simp_all only: Y M D)
  have vals: "digitsValue [y1, y2, y3, y4] = year c" "digitsValue [m1, m2] = month c"
    "digitsValue [d1, d2] = day c"
    using year4(3) [OF y] pad2(3) [OF m(1) m99] pad2(3) [OF d(1) d99]
    by (simp_all only: Y M D)
  have parts: "take 4 (isoText c) = [y1, y2, y3, y4]" "take 2 (drop 5 (isoText c)) = [m1, m2]"
    "drop 8 (isoText c) = [d1, d2]" "length (isoText c) = 10"
    "isoText c ! 4 = CHR ''-''" "isoText c ! 7 = CHR ''-''"
    by (simp_all add: iso)
  show ?thesis
    unfolding parseDate_def parts using digits m d(1) d31
    by (simp only: vals Let_def) (simp add: dayNumber_def MakeDate_def)
qed

lemma isoText_nonempty: "isoText c \<noteq> []"
  by (simp add: isoText_def String_def showNat_nonempty)

lemma dateKey_isoText: "dateKey tz d = isoText (localYMD tz d)"
  by (simp add: dateKey_def isoText_def localYMD_def Let_def)

lemma dayNumber_localYMD: "dayNumber (localYMD tz d) = localDay tz d"
  using MakeDay_roundtrip [of "LocalTime tz d" 0]
  by (simp add: dayNumber_def localYMD_def localDay_def getFullYear_def getMonth_def getDate_def)

lemma localYMD_range:
  "1 \<le> month (localYMD tz d)" "month (localYMD tz d) \<le> 12"
  "1 \<le> day (localYMD tz d)"
  "day (localYMD tz d) \<le> daysInMonth (year (localYMD tz d)) (month (localYMD tz d))"
  using MonthFromTime_range [of "LocalTime tz d"] DateFromTime_range [of "LocalTime tz d"]
  by (simp_all add: localYMD_def getMonth_def getDate_def getFullYear_def)

lemma localYMD_valid:
  "1000 \<le> getFullYear tz d \<Longrightarrow> getFullYear tz d \<le> 9999 \<Longrightarrow> validDate (localYMD tz d)"
  using localYMD_range [of tz d] by (simp add: validDate_def) (simp add: localYMD_def)

text \<open>
  The key of a \<open>Date\<close> names its local day and nothing else: two \<open>Date\<close>s have the same
  key exactly when they fall on the same local day.
\<close>

lemma isoText_inj:
  assumes "1 \<le> month c" "month c \<le> 99" "1 \<le> day c" "day c \<le> 99"
    and "1 \<le> month c'" "month c' \<le> 99" "1 \<le> day c'" "day c' \<le> 99"
    and "isoText c = isoText c'"
  shows "c = c'"
proof -
  obtain m1 m2 where M: "padStart 2 CHR ''0'' (String (month c)) = [m1, m2]"
    using length2 [OF pad2(1) [OF assms(1,2)]] by blast
  obtain d1 d2 where D: "padStart 2 CHR ''0'' (String (day c)) = [d1, d2]"
    using length2 [OF pad2(1) [OF assms(3,4)]] by blast
  obtain m1' m2' where M': "padStart 2 CHR ''0'' (String (month c')) = [m1', m2']"
    using length2 [OF pad2(1) [OF assms(5,6)]] by blast
  obtain d1' d2' where D': "padStart 2 CHR ''0'' (String (day c')) = [d1', d2']"
    using length2 [OF pad2(1) [OF assms(7,8)]] by blast
  have "String (year c) @ [CHR ''-'', m1, m2, CHR ''-'', d1, d2]
      = String (year c') @ [CHR ''-'', m1', m2', CHR ''-'', d1', d2']"
    using assms(9) by (simp add: isoText_def M D M' D')
  then have "String (year c) = String (year c')" and "[m1, m2] = [m1', m2']"
    and "[d1, d2] = [d1', d2']"
    by simp_all
  then have "year c = year c'" "month c = month c'" "day c = day c'"
    using pad2_inj [OF assms(1,2,5,6)] pad2_inj [OF assms(3,4,7,8)] String_inj
    by (simp_all only: M D M' D')
  then show ?thesis by simp
qed

lemma dateKey_localDay: "dateKey tz d = dateKey tz d' \<longleftrightarrow> localDay tz d = localDay tz d'"
proof
  assume eq: "dateKey tz d = dateKey tz d'"
  have r: "1 \<le> month (localYMD tz x) \<and> month (localYMD tz x) \<le> 99
      \<and> 1 \<le> day (localYMD tz x) \<and> day (localYMD tz x) \<le> 99" for x
    using localYMD_range [of tz x]
    by (auto simp: daysInMonth_def split: if_splits)
  have "localYMD tz d = localYMD tz d'"
    using eq r [of d] r [of d'] by (intro isoText_inj) (simp_all add: dateKey_isoText)
  then show "localDay tz d = localDay tz d'"
    using dayNumber_localYMD [of tz d] dayNumber_localYMD [of tz d'] by simp
next
  assume eq: "localDay tz d = localDay tz d'"
  then have "Day (LocalTime tz d) = Day (LocalTime tz d')" by (simp add: localDay_def)
  then show "dateKey tz d = dateKey tz d'"
    by (simp add: dateKey_def getFullYear_def getMonth_def getDate_def YearFromTime_def
        MonthFromTime_def DateFromTime_def DayWithinYear_def InLeapYear_def)
qed

section \<open>Facts about numbers\<close>

lemma bitLength_le: "a < 2 ^ k \<Longrightarrow> bitLength a \<le> k"
proof (induction k arbitrary: a)
  case 0
  then show ?case by (subst bitLength.simps) simp
next
  case (Suc k)
  show ?case
  proof (cases "a = 0")
    case True
    then show ?thesis by (subst bitLength.simps) simp
  next
    case False
    have "a div 2 < 2 ^ k" using Suc.prems by simp
    then have "bitLength (a div 2) \<le> k" by (rule Suc.IH)
    then show ?thesis using False by (subst bitLength.simps) simp
  qed
qed

text \<open>Below \<open>2^53\<close> in magnitude an integer is its own Number value.\<close>

lemma roundTiesToEven_safe:
  assumes "a < 2 ^ 53"
  shows "roundTiesToEven a = a"
proof -
  have "bitLength a - 53 = 0" using bitLength_le [OF assms] by simp
  then show ?thesis by (simp add: roundTiesToEven_def)
qed

lemma numberValue_safe:
  assumes "\<bar>n\<bar> < 2 ^ 53"
  shows "numberValue n = Num n"
proof -
  have a: "nat \<bar>n\<bar> < 2 ^ 53" using assms by (simp add: nat_less_iff)
  have small: "nat \<bar>n\<bar> < 2 ^ 1024"
  proof -
    have "(2::nat) ^ 53 \<le> 2 ^ 1024" by (rule power_increasing) simp_all
    then show ?thesis using a by linarith
  qed
  show ?thesis
    using small by (simp add: numberValue_def roundTiesToEven_safe [OF a] Let_def)
qed

lemma bitLength_gt: "2 ^ k \<le> a \<Longrightarrow> k < bitLength a"
proof (induction k arbitrary: a)
  case 0
  then show ?case by (subst bitLength.simps) simp
next
  case (Suc k)
  have "2 ^ k \<le> a div 2" using Suc.prems by simp
  then have "k < bitLength (a div 2)" by (rule Suc.IH)
  moreover have "(0::nat) < 2 ^ Suc k" by simp
  then have "a \<noteq> 0" using Suc.prems by linarith
  ultimately show ?case by (subst bitLength.simps) simp
qed

text \<open>From \<open>2^53\<close> to \<open>2^54\<close> the doubles are the even integers.\<close>

lemma numberValue_54:
  assumes "2 ^ 53 \<le> n" and "n < 2 ^ 54"
  shows "numberValue n = Num (2 * (if odd n \<and> odd (n div 2) then n div 2 + 1 else n div 2))"
proof -
  define a where "a = nat n"
  have a: "2 ^ 53 \<le> a" "a < 2 ^ 54" and n: "n = int a" "\<not> n < 0" "\<bar>n\<bar> = n"
    using assms by (simp_all add: a_def nat_le_iff nat_less_iff)
  have "bitLength a \<le> 54" using a(2) by (rule bitLength_le)
  moreover have "53 < bitLength a" using a(1) by (rule bitLength_gt)
  ultimately have e: "bitLength a - 53 = 1" by simp
  have r: "roundTiesToEven a = (if odd a \<and> odd (a div 2) then a div 2 + 1 else a div 2) * 2"
    by (simp add: roundTiesToEven_def e Let_def odd_iff_mod_2_eq_one)
  have "roundTiesToEven a \<le> a + 1" unfolding r by (simp split: if_splits) presburger
  then have "roundTiesToEven a \<le> 2 ^ 54" using a(2) by simp
  moreover have "(2::nat) ^ 54 < 2 ^ 1024" by (rule power_strict_increasing) simp_all
  ultimately have small: "\<not> 2 ^ 1024 \<le> roundTiesToEven a" by linarith
  have "numberValue n = Num (int (roundTiesToEven a))"
    using small by (simp add: numberValue_def n(2,3) a_def [symmetric] Let_def)
  also have "int (roundTiesToEven a)
      = 2 * (if odd n \<and> odd (n div 2) then n div 2 + 1 else n div 2)"
  proof -
    have h: "n div 2 = int (a div 2)" unfolding n(1) by simp
    have "odd n \<longleftrightarrow> odd a" "odd (n div 2) \<longleftrightarrow> odd (a div 2)"
      unfolding h unfolding n(1) by simp_all
    then show ?thesis unfolding r h by simp
  qed
  finally show ?thesis .
qed

lemma Number_add_safe:
  "\<bar>a + b\<bar> < 2 ^ 53 \<Longrightarrow> Number_add (Num a) (Num b) = Num (a + b)"
  by (simp add: numberValue_safe)

lemma Number_toString_safe:
  "\<bar>n\<bar> < 2 ^ 53 \<Longrightarrow> Number_toString (Num n) = String n"
  by (simp add: Number_toString_def)

text \<open>
  While the numbers stay below \<open>2^53\<close>, the line that the program writes is the line of
  the specification.
\<close>

lemma displayText_safe:
  assumes "countPerDay p = Num c" and "0 \<le> k" and "0 \<le> c" and "k + c < 2 ^ 53"
  shows "displayText p (Num k) = spec_line p k"
proof -
  have k: "\<bar>k\<bar> < 2 ^ 53" and kc: "\<bar>k + c\<bar> < 2 ^ 53" and kc1: "\<bar>k + c - 1\<bar> < 2 ^ 53"
    using assms(2-4) by simp_all
  have e: "Number_subtract (Number_add (Num k) (Num c)) (Num 1) = Num (k + c - 1)"
  proof -
    have "Number_add (Num k) (Num c) = Num (k + c)" using kc by (rule Number_add_safe)
    moreover have "Number_add (Num (k + c)) (Num (- 1)) = Num (k + c - 1)"
      using Number_add_safe [of "k + c" "- 1"] kc1 by simp
    ultimately show ?thesis by (simp only: Number_subtract_def Number_unaryMinus.simps)
  qed
  show ?thesis
    unfolding displayText_def spec_line_def assms(1) Let_def e
    by (simp add: Number_toString_safe [OF k] Number_toString_safe [OF kc1])
qed

section \<open>PlanResolver: facts\<close>

lemma initCounters_frame:
  "i \<notin> id' ` set ps \<Longrightarrow> fold (\<lambda>p counters. counters(id' p \<mapsto> startNum p)) ps m i = m i"
  by (induction ps arbitrary: m) auto

lemma initCounters_fold:
  "distinct (map id' ps) \<Longrightarrow> p \<in> set ps \<Longrightarrow>
   fold (\<lambda>p counters. counters(id' p \<mapsto> startNum p)) ps m (id' p) = Some (startNum p)"
proof (induction ps arbitrary: m)
  case Nil
  then show ?case by simp
next
  case (Cons q qs)
  show ?case
  proof (cases "p \<in> set qs")
    case True
    then show ?thesis using Cons by simp
  next
    case False
    then have "p = q" using Cons.prems by simp
    moreover have "id' q \<notin> id' ` set qs" using Cons.prems by simp
    then have "fold (\<lambda>p counters. counters(id' p \<mapsto> startNum p)) qs (m(id' q \<mapsto> startNum q)) (id' q)
        = (m(id' q \<mapsto> startNum q)) (id' q)"
      by (rule initCounters_frame)
    ultimately show ?thesis by (simp only: fold_simps comp_apply fun_upd_same)
  qed
qed

lemma initCounters_lookup:
  "distinct (map id' ps) \<Longrightarrow> p \<in> set ps \<Longrightarrow> initCounters ps (id' p) = Some (startNum p)"
  unfolding initCounters_def by (rule initCounters_fold)

lemma applyPattern_frame:
  "i \<notin> id' ` set ps \<Longrightarrow> snd (fold (applyPattern wd) ps (ls, c)) i = c i"
  by (induction ps arbitrary: ls c) (auto simp: applyPattern_def Let_def)

lemma applyPattern_fold:
  assumes "distinct (map id' ps)" and "\<forall>p\<in>set ps. c (id' p) = Some (k p)"
  shows "fst (fold (applyPattern wd) ps (ls, c))
           = ls @ map (\<lambda>p. displayText p (k p)) (filter (\<lambda>p. shouldApply p wd) ps)
       \<and> (\<forall>p\<in>set ps. snd (fold (applyPattern wd) ps (ls, c)) (id' p)
             = Some (if shouldApply p wd then Number_add (k p) (countPerDay p) else k p))"
  using assms
proof (induction ps arbitrary: ls c)
  case Nil
  then show ?case by simp
next
  case (Cons q qs)
  obtain ls1 c1 where step: "applyPattern wd q (ls, c) = (ls1, c1)"
    by (cases "applyPattern wd q (ls, c)")
  have cq: "c (id' q) = Some (k q)" using Cons.prems by simp
  have ls1: "ls1 = ls @ (if shouldApply q wd then [displayText q (k q)] else [])"
    and c1: "c1 = (if shouldApply q wd then c(id' q \<mapsto> Number_add (k q) (countPerDay q)) else c)"
    using step cq by (auto simp: applyPattern_def Let_def split: if_splits)
  have notin: "id' q \<notin> id' ` set qs" using Cons.prems by simp
  have neq: "\<forall>p\<in>set qs. id' p \<noteq> id' q" using notin by (metis imageI)
  have rest: "\<forall>p\<in>set qs. c1 (id' p) = Some (k p)"
    using Cons.prems neq by (simp add: c1)
  have dq: "distinct (map id' qs)" using Cons.prems by simp
  note IH = Cons.IH [OF dq rest, of ls1]
  have fold_eq: "fold (applyPattern wd) (q # qs) (ls, c) = fold (applyPattern wd) qs (ls1, c1)"
    by (simp add: step)
  have "snd (fold (applyPattern wd) qs (ls1, c1)) (id' q) = c1 (id' q)"
    using notin by (rule applyPattern_frame)
  then have q_after: "snd (fold (applyPattern wd) qs (ls1, c1)) (id' q)
      = Some (if shouldApply q wd then Number_add (k q) (countPerDay q) else k q)"
    using cq by (simp add: c1)
  show ?case
    unfolding fold_eq using IH q_after by (auto simp: ls1)
qed

lemma counterAt_snoc:
  "counterAt tz p (earlier @ [d])
     = (if shouldApply p (getDay tz d) then Number_add (counterAt tz p earlier) (countPerDay p)
        else counterAt tz p earlier)"
  by (simp add: counterAt_def)

lemma applyDate_fold:
  assumes "distinct (map id' ps)"
    and "\<forall>p\<in>set ps. c (id' p) = Some (counterAt tz p earlier)"
  shows "fst (fold (applyDate tz ps) ds (plan, c)) = closedRun tz ps earlier ds plan"
  using assms(2)
proof (induction ds arbitrary: plan c earlier)
  case Nil
  show ?case by simp
next
  case (Cons d ds)
  define r where "r = fold (applyPattern (getDay tz d)) ps ([], c)"
  have r1: "fst r = linesOn tz ps earlier d"
    and r2: "\<forall>p\<in>set ps. snd r (id' p) = Some (counterAt tz p (earlier @ [d]))"
    using applyPattern_fold [OF assms(1) Cons.prems, of "getDay tz d" "[]"]
    by (simp_all add: r_def linesOn_def counterAt_snoc)
  have step: "applyDate tz ps d (plan, c)
      = (if linesOn tz ps earlier d = [] then plan
         else plan(dateKey tz d \<mapsto> join [CHR 0x0A] (linesOn tz ps earlier d)), snd r)"
    using r1 by (simp add: applyDate_def Let_def r_def [symmetric] split_beta)
  show ?case
    using Cons.IH [OF r2] by (simp add: step)
qed

lemma resolve_closedRun:
  "distinct (map id' ps) \<Longrightarrow> resolve tz cal ps = closedRun tz ps [] cal Map.empty"
  unfolding resolve_def
  by (rule applyDate_fold) (simp_all add: initCounters_lookup counterAt_def)

lemma spec_fires_shouldApply: "spec_fires p wd = shouldApply p wd"
  by (simp add: spec_fires_def shouldApply_def)

lemma spec_day_closed:
  "spec_day wd (map (\<lambda>p. (p, k p)) ps)
     = (map (\<lambda>p. spec_line p (k p)) (filter (\<lambda>p. shouldApply p wd) ps),
        map (\<lambda>p. (p, k p + (if shouldApply p wd then spec_integer (countPerDay p) else 0))) ps)"
  by (induction ps) (simp_all add: spec_fires_shouldApply)

text \<open>
  The counters of the specification and those of the program, side by side: as long as
  the integer \<open>k p\<close> that the specification has reached for each pattern is what the
  program has reached, and the remaining days leave it below \<open>2^53\<close>, both build the same
  plan map.
\<close>

lemma spec_days_closedRun:
  assumes "\<forall>p\<in>set ps. 0 \<le> k p \<and> 0 \<le> spec_integer (countPerDay p)
             \<and> countPerDay p = Num (spec_integer (countPerDay p))
             \<and> k p + spec_integer (countPerDay p) * int (length ds) < 2 ^ 53
             \<and> counterAt tz p earlier = Num (k p)"
  shows "spec_days tz ds (map (\<lambda>p. (p, k p)) ps) plan = closedRun tz ps earlier ds plan"
  using assms
proof (induction ds arbitrary: k earlier plan)
  case Nil
  show ?case by simp
next
  case (Cons d ds)
  define k' where
    "k' p = k p + (if shouldApply p (getDay tz d) then spec_integer (countPerDay p) else 0)" for p
  have inv: "0 \<le> k p" "0 \<le> spec_integer (countPerDay p)"
    "countPerDay p = Num (spec_integer (countPerDay p))"
    "k p + spec_integer (countPerDay p) * (int (length ds) + 1) < 2 ^ 53"
    "counterAt tz p earlier = Num (k p)" if "p \<in> set ps" for p
    using Cons.prems that by (simp_all add: algebra_simps)
  have room: "k p + spec_integer (countPerDay p) < 2 ^ 53" if "p \<in> set ps" for p
  proof -
    have "0 \<le> spec_integer (countPerDay p) * int (length ds)"
      using inv(2) [OF that] by simp
    then show ?thesis using inv(4) [OF that] by (simp add: algebra_simps)
  qed
  have line: "displayText p (counterAt tz p earlier) = spec_line p (k p)" if "p \<in> set ps" for p
    unfolding inv(5) [OF that]
    using inv(3) [OF that] inv(1) [OF that] inv(2) [OF that] room [OF that]
    by (rule displayText_safe)
  have lines: "map (\<lambda>p. spec_line p (k p)) (filter (\<lambda>p. shouldApply p (getDay tz d)) ps)
      = linesOn tz ps earlier d"
    unfolding linesOn_def by (rule map_cong) (simp_all add: line)
  have day: "spec_day (getDay tz d) (map (\<lambda>p. (p, k p)) ps)
      = (linesOn tz ps earlier d, map (\<lambda>p. (p, k' p)) ps)"
    by (simp only: spec_day_closed lines k'_def)
  have next_inv: "\<forall>p\<in>set ps. 0 \<le> k' p \<and> 0 \<le> spec_integer (countPerDay p)
             \<and> countPerDay p = Num (spec_integer (countPerDay p))
             \<and> k' p + spec_integer (countPerDay p) * int (length ds) < 2 ^ 53
             \<and> counterAt tz p (earlier @ [d]) = Num (k' p)"
  proof
    fix p
    assume p: "p \<in> set ps"
    have a: "0 \<le> k' p" using inv(1,2) [OF p] by (simp add: k'_def)
    have "0 \<le> spec_integer (countPerDay p) * int (length ds)"
      using inv(2) [OF p] by simp
    then have b: "k' p + spec_integer (countPerDay p) * int (length ds) < 2 ^ 53"
      using inv(2,4) [OF p] by (simp add: k'_def algebra_simps)
    have "\<bar>k p + spec_integer (countPerDay p)\<bar> < 2 ^ 53"
      using inv(1,2) [OF p] room [OF p] by simp
    then have "Number_add (Num (k p)) (Num (spec_integer (countPerDay p)))
        = Num (k p + spec_integer (countPerDay p))"
      by (rule Number_add_safe)
    then have "Number_add (Num (k p)) (countPerDay p) = Num (k p + spec_integer (countPerDay p))"
      using inv(3) [OF p] by simp
    then have c: "counterAt tz p (earlier @ [d]) = Num (k' p)"
      by (simp add: counterAt_snoc inv(5) [OF p] k'_def)
    from a b c inv(2,3) [OF p]
    show "0 \<le> k' p \<and> 0 \<le> spec_integer (countPerDay p)
             \<and> countPerDay p = Num (spec_integer (countPerDay p))
             \<and> k' p + spec_integer (countPerDay p) * int (length ds) < 2 ^ 53
             \<and> counterAt tz p (earlier @ [d]) = Num (k' p)"
      by blast
  qed
  show ?case
    by (simp only: spec_days.simps day Let_def split_conv Cons.IH [OF next_inv]
        closedRun.simps)
qed

lemma withinSafeRange_cases:
  assumes "withinSafeRange n p"
  shows "startNum p = Num (spec_integer (startNum p))"
    and "countPerDay p = Num (spec_integer (countPerDay p))"
    and "0 \<le> spec_integer (startNum p)" and "0 \<le> spec_integer (countPerDay p)"
    and "spec_integer (startNum p) + spec_integer (countPerDay p) * int n < 2 ^ 53"
  using assms
  by (cases "startNum p"; cases "countPerDay p"; simp add: withinSafeRange_def)+

lemma spec_resolve_closedRun:
  assumes "list_all (withinSafeRange (length cal)) ps"
  shows "spec_resolve tz cal ps = closedRun tz ps [] cal Map.empty"
  unfolding spec_resolve_def
proof (rule spec_days_closedRun, rule ballI)
  fix p
  assume "p \<in> set ps"
  then have w: "withinSafeRange (length cal) p" using assms by (simp add: list_all_iff)
  have "counterAt tz p [] = Num (spec_integer (startNum p))"
    using withinSafeRange_cases(1) [OF w] by (simp add: counterAt_def)
  with withinSafeRange_cases [OF w]
  show "0 \<le> spec_integer (startNum p) \<and> 0 \<le> spec_integer (countPerDay p)
             \<and> countPerDay p = Num (spec_integer (countPerDay p))
             \<and> spec_integer (startNum p) + spec_integer (countPerDay p) * int (length cal) < 2 ^ 53
             \<and> counterAt tz p [] = Num (spec_integer (startNum p))"
    by blast
qed

text \<open>
  With distinct identifiers and numbers that stay below \<open>2^53\<close>, the resolver of the source
  computes what the algorithm of the specification computes.
\<close>

lemma resolve_spec_resolve:
  assumes "distinct (map id' ps)" and "list_all (withinSafeRange (length cal)) ps"
  shows "resolve tz cal ps = spec_resolve tz cal ps"
  using assms by (simp add: resolve_closedRun spec_resolve_closedRun)

lemma linesOn_empty:
  "linesOn tz ps earlier d = [] \<longleftrightarrow> \<not> (\<exists>p\<in>set ps. shouldApply p (getDay tz d))"
  by (auto simp: linesOn_def filter_empty_conv)

lemma closedRun_other:
  "k \<notin> dateKey tz ` set ds \<Longrightarrow> closedRun tz ps earlier ds plan k = plan k"
  by (induction ds arbitrary: earlier plan) auto

lemma closedRun_at:
  assumes "distinct (map (dateKey tz) (ds1 @ d # ds2))"
  shows "closedRun tz ps earlier (ds1 @ d # ds2) plan (dateKey tz d)
           = (if linesOn tz ps (earlier @ ds1) d = [] then plan (dateKey tz d)
              else Some (join [CHR 0x0A] (linesOn tz ps (earlier @ ds1) d)))"
  using assms
proof (induction ds1 arbitrary: earlier plan)
  case Nil
  then have "dateKey tz d \<notin> dateKey tz ` set ds2" by simp
  then show ?case by (simp add: closedRun_other)
next
  case (Cons x xs)
  have d: "distinct (map (dateKey tz) (xs @ d # ds2))" and ne: "dateKey tz x \<noteq> dateKey tz d"
    using Cons.prems by auto
  show ?case
    using Cons.IH [OF d, of "earlier @ [x]"] ne by simp
qed

lemma closedRun_dom:
  "dom (closedRun tz ps earlier ds plan)
     = dom plan \<union> dateKey tz ` {d \<in> set ds. \<exists>p\<in>set ps. shouldApply p (getDay tz d)}"
proof (induction ds arbitrary: earlier plan)
  case Nil
  show ?case by simp
next
  case (Cons d ds)
  show ?case
    by (simp only: closedRun.simps Cons.IH) (auto simp: linesOn_empty)
qed

lemma closedRun_nth:
  assumes "distinct (map (dateKey tz) cal)" and "i < length cal"
  shows "closedRun tz ps [] cal Map.empty (dateKey tz (cal ! i))
           = (if \<exists>p\<in>set ps. shouldApply p (getDay tz (cal ! i))
              then Some (join [CHR 0x0A] (linesOn tz ps (take i cal) (cal ! i)))
              else None)"
proof -
  have split: "cal = take i cal @ cal ! i # drop (Suc i) cal"
    using assms(2) by (rule id_take_nth_drop)
  have "distinct (map (dateKey tz) (take i cal @ cal ! i # drop (Suc i) cal))"
    using assms(1) split by simp
  from closedRun_at [OF this, of ps "[]" Map.empty] split
  show ?thesis by (simp add: linesOn_empty)
qed

section \<open>Properties of the grid layout\<close>

lemma getDay_range: "0 \<le> getDay tz d" "getDay tz d \<le> 6"
  by (simp_all add: getDay_def WeekDay_def)

lemma trailing_arith:
  fixes l n :: int
  shows "(l + n + (7 - (l + n) mod 7) mod 7) mod 7 = 0"
  by presburger

text \<open>
  Claim C6. For a calendar that is not empty, the layout's leading blanks are the weekday
  index of the first day (\<open>getDay\<close>, 0 = Sunday), its trailing blanks are
  \<open>(7 - (leading + dayCount) mod 7) mod 7\<close>, both lie in 0..6, and leading blanks, days
  and trailing blanks together are a multiple of 7. The export computes the same two
  numbers: its grid is the seven headers, that many blank cells, one cell per day, and
  that many blank cells again.
\<close>

theorem gridDates_layout:
  assumes "calendar st \<noteq> []"
  shows "(let g = gridDates tz (calendar st); dayCount = int (length (calendar st)) in
         leading g = getDay tz (hd (calendar st))
       \<and> trailing g = (7 - (leading g + dayCount) mod 7) mod 7
       \<and> 0 \<le> leading g \<and> leading g \<le> 6 \<and> 0 \<le> trailing g \<and> trailing g \<le> 6
       \<and> (leading g + dayCount + trailing g) mod 7 = 0
       \<and> cells (gridHTML tz st) =
            map Weekday [0..<7] @ replicate (nat (leading g)) Blank
              @ map (dayCell tz st) (calendar st) @ replicate (nat (trailing g)) Blank)"
proof -
  define g where "g = gridDates tz (calendar st)"
  define dayCount where "dayCount = int (length (calendar st))"
  have l: "leading g = getDay tz (hd (calendar st))"
    using assms(1) by (simp add: g_def gridDates_def Let_def)
  have t: "trailing g = (7 - (leading g + dayCount) mod 7) mod 7"
    using assms(1) by (simp add: g_def gridDates_def Let_def dayCount_def)
  have lr: "0 \<le> leading g" "leading g \<le> 6"
    unfolding l by (rule getDay_range)+
  have tr: "0 \<le> trailing g" "trailing g \<le> 6"
    unfolding t by simp_all
  have m: "(leading g + dayCount + trailing g) mod 7 = 0"
    unfolding t by (rule trailing_arith)
  have c: "cells (gridHTML tz st) =
            map Weekday [0..<7] @ replicate (nat (leading g)) Blank
              @ map (dayCell tz st) (calendar st) @ replicate (nat (trailing g)) Blank"
    unfolding t unfolding l by (simp add: gridHTML_def Let_def dayCount_def)
  from l t lr tr m c show ?thesis
    unfolding Let_def g_def [symmetric] dayCount_def [symmetric] by blast
qed

text \<open>
  The theorem at the two days 2025-01-01 and 2025-01-02 in \<open>seoul\<close>:
  the first is a Wednesday, so three blanks lead and two trail.
\<close>

theorem gridDates_layout_witness:
  "calendar ((initial ''P'' ''X'' ''u'' 0)\<lparr>calendar := [1735657200000, 1735743600000]\<rparr>) \<noteq> []
   \<and> leading (gridDates seoul [1735657200000, 1735743600000]) = 3
   \<and> trailing (gridDates seoul [1735657200000, 1735743600000]) = 2
   \<and> (leading (gridDates seoul [1735657200000, 1735743600000]) + 2
        + trailing (gridDates seoul [1735657200000, 1735743600000])) mod 7 = 0"
proof -
  have ne: "calendar ((initial ''P'' ''X'' ''u'' 0)\<lparr>calendar := [1735657200000, 1735743600000]\<rparr>) \<noteq> []"
    by simp
  have d: "getDay seoul 1735657200000 = 3"
    by (simp add: seoul_def date_eval)
  show ?thesis
    using gridDates_layout [OF ne, of seoul] d by (simp add: Let_def)
qed

section \<open>Properties of the resolver\<close>

lemmas small_numbers = Number_subtract_def Number_toString_def numberValue_safe

lemma twoMondays_keys:
  "map (dateKey seoul) twoMondays
     = [''2025-01-06'', ''2025-01-07'', ''2025-01-08'', ''2025-01-09'', ''2025-01-10'',
        ''2025-01-11'', ''2025-01-12'', ''2025-01-13'']"
  by (simp add: seoul_def twoMondays_def date_eval string_eval)

lemma twoMondays_days: "map (getDay seoul) twoMondays = [1, 2, 3, 4, 5, 6, 0, 1]"
  by (simp add: seoul_def twoMondays_def date_eval)

lemma twoMondays_monday:
  "map (resolve seoul twoMondays [monday]) (map (dateKey seoul) twoMondays)
     = [Some ''X 1-2'', None, None, None, None, None, None, Some ''X 3-4'']"
  unfolding twoMondays_keys using twoMondays_keys twoMondays_days
  by (simp add: twoMondays_def resolve_eval small_numbers monday_def string_eval)

lemma monday_safe: "list_all (withinSafeRange (length twoMondays)) [monday]"
  by (simp add: withinSafeRange_def monday_def twoMondays_def)

text \<open>
  Claim C1, within the range of exact numbers. The resolver of the source, with its
  counters in a map keyed by pattern identifier, computes what the algorithm of the
  specification computes with one integer counter per pattern, for every day sequence and
  every pattern sequence whose identifiers are pairwise distinct (as the identifiers of
  the store's patterns are) and whose start numbers and counts per day are integers, not
  negative, with start number plus count per day times the number of days below \<open>2^53\<close>.
\<close>

theorem resolve_refines_spec:
  assumes "distinct (map id' ps)" and "list_all (withinSafeRange (length cal)) ps"
  shows "resolve tz cal ps = spec_resolve tz cal ps"
  using assms by (rule resolve_spec_resolve)

text \<open>
  The theorem at the Monday-only pattern with start number 1 and two per day, over two
  consecutive Mondays: \<open>X 1-2\<close>, nothing on the days between, then \<open>X 3-4\<close>.
\<close>

theorem resolve_refines_spec_witness:
  "distinct (map id' [monday])
   \<and> list_all (withinSafeRange (length twoMondays)) [monday]
   \<and> resolve seoul twoMondays [monday] = spec_resolve seoul twoMondays [monday]
   \<and> map (spec_resolve seoul twoMondays [monday]) (map (dateKey seoul) twoMondays)
       = [Some ''X 1-2'', None, None, None, None, None, None, Some ''X 3-4'']"
proof -
  have d: "distinct (map id' [monday])" by simp
  have eq: "resolve seoul twoMondays [monday] = spec_resolve seoul twoMondays [monday]"
    using d monday_safe by (rule resolve_refines_spec)
  show ?thesis
    using d monday_safe eq twoMondays_monday by (simp only:)
qed

lemma typedLarge_patterns:
  "patterns typedLarge
     = [\<lparr>id' = 9, subjectName = ''X'', unit = [], startNum = Num 9007199254740992,
         countPerDay = Num 1, days = []\<rparr>]"
proof -
  have "digitsValue ''9007199254740992'' = 9007199254740992"
    by (simp add: digitsValue_def digitValue_def)
  moreover have "takeWhile isDigit ''9007199254740992'' = ''9007199254740992''"
    by (simp add: isDigit_def)
  moreover have "numberValue 9007199254740992 = Num 9007199254740992"
    using numberValue_54 [of 9007199254740992] by simp
  ultimately have "parseInt ''9007199254740992'' = Num 9007199254740992"
    by (simp add: parseInt_def isWhiteSpace_def)
  then show ?thesis
    by (simp add: typedLarge_def startNum_onChange_def initial_def addOrUpdatePattern_def
        isNaN_def)
qed

lemma typedLarge_calendar:
  "calendar typedLarge = [1736089200000, 1736175600000]"
  "map (dateKey seoul) [1736089200000, 1736175600000] = [''2025-01-06'', ''2025-01-07'']"
  "map (getDay seoul) [1736089200000, 1736175600000] = [1, 2]"
  using twoMondays_keys twoMondays_days
  by (simp_all add: typedLarge_def twoMondays_def)

lemma large_add: "numberValue 9007199254740993 = Num 9007199254740992"
  using numberValue_54 [of 9007199254740993] by simp

lemma large_digits: "showNat 9007199254740992 = ''9007199254740992''"
  by (simp add: string_eval)

lemma large_text: "Number_toString (Num 9007199254740992) = ''9007199254740992''"
proof -
  have "length (showNat 9007199254740992) = 16" by (simp add: large_digits)
  then show ?thesis
    by (simp add: Number_toString_def shortest_def candidate_def large_digits
        List.map_filter_simps numberValue_safe numberValue_54 Let_def upt_rec)
qed

text \<open>
  Claim C1, as stated, fails from \<open>2^53\<close>. With \<open>9007199254740992\<close> typed as start
  number and one per day, on every day, the source writes the same number on both days
  of a two-day calendar, because its sum \<open>2^53 + 1\<close> is \<open>2^53\<close>; the algorithm of the
  specification advances to \<open>9007199254740993\<close>.
\<close>

theorem resolve_from_2_53:
  "patterns typedLarge
     = [\<lparr>id' = 9, subjectName = ''X'', unit = [], startNum = Num 9007199254740992,
         countPerDay = Num 1, days = []\<rparr>]
   \<and> distinct (map id' (patterns typedLarge))
   \<and> map (dateKey seoul) (calendar typedLarge) = [''2025-01-06'', ''2025-01-07'']
   \<and> map (plans (applyAllPatterns seoul typedLarge)) [''2025-01-06'', ''2025-01-07'']
       = [Some ''X 9007199254740992'', Some ''X 9007199254740992'']
   \<and> map (spec_resolve seoul (calendar typedLarge) (patterns typedLarge))
         [''2025-01-06'', ''2025-01-07'']
       = [Some ''X 9007199254740992'', Some ''X 9007199254740993'']"
proof -
  have a: "distinct (map id' (patterns typedLarge))"
    by (simp add: typedLarge_patterns)
  have b: "map (dateKey seoul) (calendar typedLarge) = [''2025-01-06'', ''2025-01-07'']"
    by (simp only: typedLarge_calendar)
  have c: "map (plans (applyAllPatterns seoul typedLarge)) [''2025-01-06'', ''2025-01-07'']
       = [Some ''X 9007199254740992'', Some ''X 9007199254740992'']"
    using typedLarge_calendar(2,3)
    by (simp add: applyAllPatterns_def typedLarge_patterns typedLarge_calendar(1)
        resolve_def applyDate_def applyPattern_def initCounters_def shouldApply_def
        displayText_def large_add large_text)
  have d: "map (spec_resolve seoul (calendar typedLarge) (patterns typedLarge))
         [''2025-01-06'', ''2025-01-07'']
       = [Some ''X 9007199254740992'', Some ''X 9007199254740993'']"
    using typedLarge_calendar(2,3)
    by (simp add: typedLarge_patterns typedLarge_calendar(1) spec_resolve_def spec_line_def
        spec_fires_def string_eval)
  from typedLarge_patterns a b c d show ?thesis by blast
qed

text \<open>
  The number that this pattern has reached after the first day, in the sense of
  \<open>counterAt\<close>, is the number it started from.
\<close>

lemma counterAt_from_2_53:
  "counterAt seoul
     \<lparr>id' = 9, subjectName = ''X'', unit = [], startNum = Num 9007199254740992,
      countPerDay = Num 1, days = []\<rparr> [1736089200000]
   = Num 9007199254740992"
  by (simp add: counterAt_def shouldApply_def large_add)

lemma applyAllPatterns_plans:
  "calendar st \<noteq> [] \<Longrightarrow>
   plans (applyAllPatterns tz st) = resolve tz (calendar st) (patterns st)"
  by (simp add: applyAllPatterns_def)

lemma applyAllPatterns_frame:
  "calendar (applyAllPatterns tz st) = calendar st"
  "patterns (applyAllPatterns tz st) = patterns st"
  by (simp_all add: applyAllPatterns_def alert_def)

lemma applyAllPatterns_twice:
  "plans (applyAllPatterns tz (applyAllPatterns tz st)) = plans (applyAllPatterns tz st)"
  by (simp add: applyAllPatterns_def alert_def)

text \<open>
  Claim C4. On a calendar that is not empty (with distinct day keys and distinct pattern
  identifiers), the plan map after \<open>applyAllPatterns\<close> has a key exactly for the days on
  which some pattern fires; the value of such a day is its fired lines, in store order,
  joined by newlines, the line of each firing pattern being the one for the number it
  has reached on the days before; a day on which nothing fires has no entry; and the
  result does not depend on the plan map before, so no earlier entry, a manual edit
  included, survives.
\<close>

theorem applyAllPatterns_replaces_plans:
  assumes "calendar st \<noteq> []"
    and "distinct (map id' (patterns st))"
    and "distinct (map (dateKey tz) (calendar st))"
  shows "dom (plans (applyAllPatterns tz st))
           = dateKey tz ` {d \<in> set (calendar st). \<exists>p\<in>set (patterns st). shouldApply p (getDay tz d)}
       \<and> (\<forall>i<length (calendar st).
             plans (applyAllPatterns tz st) (dateKey tz (calendar st ! i))
               = (if \<exists>p\<in>set (patterns st). shouldApply p (getDay tz (calendar st ! i))
                  then Some (join [CHR 0x0A]
                         (linesOn tz (patterns st) (take i (calendar st)) (calendar st ! i)))
                  else None))
       \<and> (\<forall>old. plans (applyAllPatterns tz (st\<lparr>plans := old\<rparr>)) = plans (applyAllPatterns tz st))
       \<and> (\<forall>key v. plans (applyAllPatterns tz (editPlan key v st)) = plans (applyAllPatterns tz st))"
proof -
  have eq: "plans (applyAllPatterns tz st) = closedRun tz (patterns st) [] (calendar st) Map.empty"
    using assms(1,2) by (simp add: applyAllPatterns_plans resolve_closedRun)
  have a: "dom (plans (applyAllPatterns tz st))
      = dateKey tz ` {d \<in> set (calendar st). \<exists>p\<in>set (patterns st). shouldApply p (getDay tz d)}"
    unfolding eq by (simp add: closedRun_dom)
  have b: "\<forall>i<length (calendar st).
      plans (applyAllPatterns tz st) (dateKey tz (calendar st ! i))
        = (if \<exists>p\<in>set (patterns st). shouldApply p (getDay tz (calendar st ! i))
           then Some (join [CHR 0x0A]
                  (linesOn tz (patterns st) (take i (calendar st)) (calendar st ! i)))
           else None)"
    unfolding eq using closedRun_nth [OF assms(3)] by blast
  have c: "\<forall>old. plans (applyAllPatterns tz (st\<lparr>plans := old\<rparr>)) = plans (applyAllPatterns tz st)"
    using assms(1) by (simp add: applyAllPatterns_def)
  have d: "\<forall>key v. plans (applyAllPatterns tz (editPlan key v st)) = plans (applyAllPatterns tz st)"
    using assms(1) by (simp add: applyAllPatterns_def editPlan_def)
  from a b c d show ?thesis by blast
qed

text \<open>
  Claim C5. Applying the patterns a second time, from the state the first run left, gives
  the same plan map; two states with the same calendar (not empty) and the same patterns
  get the same plan map, whatever else they hold; and the second run numbers every
  pattern from its start number again: with distinct identifiers and numbers that stay
  below \<open>2^53\<close> its plan map is the one of the specification's algorithm, whose counters
  start at the start numbers, and, whatever the numbers, with distinct identifiers and
  distinct day keys its entry for the first day of the calendar holds, for each pattern
  that fires on that day, the line for the pattern's start number.
\<close>

theorem applyAllPatterns_idempotent:
  "plans (applyAllPatterns tz (applyAllPatterns tz st)) = plans (applyAllPatterns tz st)
   \<and> (calendar st \<noteq> [] \<and> calendar st' = calendar st \<and> patterns st' = patterns st
        \<longrightarrow> plans (applyAllPatterns tz st') = plans (applyAllPatterns tz st))
   \<and> (calendar st \<noteq> [] \<and> distinct (map id' (patterns st))
        \<and> list_all (withinSafeRange (length (calendar st))) (patterns st)
        \<longrightarrow> plans (applyAllPatterns tz (applyAllPatterns tz st))
              = spec_resolve tz (calendar st) (patterns st))
   \<and> (calendar st \<noteq> [] \<and> distinct (map id' (patterns st))
        \<and> distinct (map (dateKey tz) (calendar st))
        \<longrightarrow> plans (applyAllPatterns tz (applyAllPatterns tz st)) (dateKey tz (hd (calendar st)))
              = (if \<exists>p\<in>set (patterns st). shouldApply p (getDay tz (hd (calendar st)))
                 then Some (join [CHR 0x0A]
                        (map (\<lambda>p. displayText p (startNum p))
                          (filter (\<lambda>p. shouldApply p (getDay tz (hd (calendar st))))
                            (patterns st))))
                 else None))"
proof -
  have b: "plans (applyAllPatterns tz st') = plans (applyAllPatterns tz st)"
    if "calendar st \<noteq> []" "calendar st' = calendar st" "patterns st' = patterns st"
    using that by (simp add: applyAllPatterns_def)
  have c: "plans (applyAllPatterns tz (applyAllPatterns tz st))
      = spec_resolve tz (calendar st) (patterns st)"
    if "calendar st \<noteq> []" "distinct (map id' (patterns st))"
      "list_all (withinSafeRange (length (calendar st))) (patterns st)"
  proof -
    have "plans (applyAllPatterns tz st) = resolve tz (calendar st) (patterns st)"
      using that(1) by (rule applyAllPatterns_plans)
    also have "\<dots> = spec_resolve tz (calendar st) (patterns st)"
      using that(2,3) by (rule resolve_spec_resolve)
    finally show ?thesis by (simp only: applyAllPatterns_twice)
  qed
  have d: "plans (applyAllPatterns tz (applyAllPatterns tz st)) (dateKey tz (hd (calendar st)))
      = (if \<exists>p\<in>set (patterns st). shouldApply p (getDay tz (hd (calendar st)))
         then Some (join [CHR 0x0A]
                (map (\<lambda>p. displayText p (startNum p))
                  (filter (\<lambda>p. shouldApply p (getDay tz (hd (calendar st))))
                    (patterns st))))
         else None)"
    if ne: "calendar st \<noteq> []" and ids: "distinct (map id' (patterns st))"
      and keys: "distinct (map (dateKey tz) (calendar st))"
  proof -
    have i: "0 < length (calendar st)" and h: "calendar st ! 0 = hd (calendar st)"
      using ne by (simp_all add: hd_conv_nth)
    have "plans (applyAllPatterns tz st) = resolve tz (calendar st) (patterns st)"
      using ne by (rule applyAllPatterns_plans)
    also have "\<dots> = closedRun tz (patterns st) [] (calendar st) Map.empty"
      using ids by (rule resolve_closedRun)
    finally have "plans (applyAllPatterns tz (applyAllPatterns tz st))
        = closedRun tz (patterns st) [] (calendar st) Map.empty"
      by (simp only: applyAllPatterns_twice)
    then show ?thesis
      using closedRun_nth [OF keys i, of "patterns st"]
      by (simp add: h linesOn_def counterAt_def)
  qed
  from applyAllPatterns_twice b c d show ?thesis by blast
qed

text \<open>
  Claim C10. With distinct pattern identifiers and distinct day keys, the plan map of a
  pattern list is, key by key, the merge in store order of the plan maps of its patterns
  taken alone; and a pattern alone contributes, on each day it fires, the line numbered
  from its own start number and its own earlier firing days only.
\<close>

theorem resolve_per_pattern:
  assumes "distinct (map id' ps)" and "distinct (map (dateKey tz) cal)"
  shows "(\<forall>key. resolve tz cal ps key
            = (let lines = concat (map (\<lambda>p. case resolve tz cal [p] key of
                                               Some line \<Rightarrow> [line] | None \<Rightarrow> []) ps)
               in if lines = [] then None else Some (join [CHR 0x0A] lines)))
       \<and> (\<forall>p. \<forall>i<length cal.
             resolve tz cal [p] (dateKey tz (cal ! i))
               = (if shouldApply p (getDay tz (cal ! i))
                  then Some (displayText p (counterAt tz p (take i cal)))
                  else None))"
proof -
  have single: "resolve tz cal [p] (dateKey tz (cal ! i))
               = (if shouldApply p (getDay tz (cal ! i))
                  then Some (displayText p (counterAt tz p (take i cal)))
                  else None)" if "i < length cal" for p i
    using closedRun_nth [OF assms(2) that, of "[p]"]
    by (simp add: resolve_closedRun linesOn_def)
  have merge: "resolve tz cal ps key
            = (let lines = concat (map (\<lambda>p. case resolve tz cal [p] key of
                                               Some line \<Rightarrow> [line] | None \<Rightarrow> []) ps)
               in if lines = [] then None else Some (join [CHR 0x0A] lines))" for key
  proof (cases "key \<in> dateKey tz ` set cal")
    case False
    then have "resolve tz cal qs key = None" if "distinct (map id' qs)" for qs
      using that by (simp add: resolve_closedRun closedRun_other)
    then have "resolve tz cal ps key = None" "\<And>p. resolve tz cal [p] key = None"
      using assms(1) by simp_all
    then show ?thesis by simp
  next
    case True
    then obtain i where i: "i < length cal" and key: "key = dateKey tz (cal ! i)"
      by (auto simp: in_set_conv_nth)
    have "concat (map (\<lambda>p. case resolve tz cal [p] key of Some line \<Rightarrow> [line] | None \<Rightarrow> []) ps)
        = linesOn tz ps (take i cal) (cal ! i)"
      unfolding key linesOn_def by (induction ps) (simp_all add: single [OF i])
    moreover have "resolve tz cal ps key
        = (if \<exists>p\<in>set ps. shouldApply p (getDay tz (cal ! i))
           then Some (join [CHR 0x0A] (linesOn tz ps (take i cal) (cal ! i))) else None)"
      unfolding key using closedRun_nth [OF assms(2) i, of ps] assms(1)
      by (simp add: resolve_closedRun)
    ultimately show ?thesis by (simp add: Let_def linesOn_empty)
  qed
  from single merge show ?thesis by blast
qed

subsection \<open>The theorems on the examples\<close>

lemma twoMondays_distinct: "distinct (map (dateKey seoul) twoMondays)"
  unfolding twoMondays_keys by simp

lemma twoMondays_daily:
  "resolve seoul twoMondays [daily] ''2025-01-13'' = Some ''Y 17p''"
  using twoMondays_keys twoMondays_days
  by (simp add: twoMondays_def resolve_eval small_numbers daily_def string_eval)

lemma twoMondays_monday_last:
  "resolve seoul twoMondays [monday] ''2025-01-13'' = Some ''X 3-4''"
  using twoMondays_monday unfolding twoMondays_keys by simp

lemma twoMondays_nth:
  "dateKey seoul (twoMondays ! 0) = ''2025-01-06''" "getDay seoul (twoMondays ! 0) = 1"
  "dateKey seoul (twoMondays ! 2) = ''2025-01-08''" "getDay seoul (twoMondays ! 2) = 3"
  "dateKey seoul (twoMondays ! 3) = ''2025-01-09''" "getDay seoul (twoMondays ! 3) = 4"
  "dateKey seoul (twoMondays ! 7) = ''2025-01-13''" "getDay seoul (twoMondays ! 7) = 1"
  using twoMondays_keys twoMondays_days by (simp_all add: twoMondays_def)

lemma twoMondays_length: "length twoMondays = 8"
  by (simp add: twoMondays_def)

lemma twoPatterns_fires:
  "shouldApply monday 1" "\<not> shouldApply monday 3" "\<not> shouldApply monday 4"
  "shouldApply monThu 1" "\<not> shouldApply monThu 3" "shouldApply monThu 4"
  by (simp_all add: shouldApply_def monday_def monThu_def)

lemma twoPatterns_lines:
  "linesOn seoul [monday, monThu] [] (twoMondays ! 0) = [''X 1-2'', ''Y 10p'']"
  "linesOn seoul [monday, monThu] (take 3 twoMondays) (twoMondays ! 3) = [''Y 11p'']"
  "linesOn seoul [monday, monThu] (take 7 twoMondays) (twoMondays ! 7) = [''X 3-4'', ''Y 12p'']"
  using twoMondays_days twoMondays_nth
  by (simp_all add: linesOn_def counterAt_def shouldApply_def displayText_def monday_def
      monThu_def twoMondays_def small_numbers string_eval)

text \<open>
  Claim C4 on the state with the two patterns: the Mondays get two lines, in store order,
  the Thursday one, and the other days none, the Wednesday of the manual entry among
  them.
\<close>

theorem applyAllPatterns_replaces_plans_witness:
  "calendar twoPatterns \<noteq> []
   \<and> distinct (map id' (patterns twoPatterns))
   \<and> distinct (map (dateKey seoul) (calendar twoPatterns))
   \<and> plans twoPatterns ''2025-01-08'' = Some ''manual''
   \<and> plans (applyAllPatterns seoul twoPatterns) ''2025-01-06''
       = Some (''X 1-2'' @ [CHR 0x0A] @ ''Y 10p'')
   \<and> plans (applyAllPatterns seoul twoPatterns) ''2025-01-08'' = None
   \<and> plans (applyAllPatterns seoul twoPatterns) ''2025-01-09'' = Some ''Y 11p''
   \<and> plans (applyAllPatterns seoul twoPatterns) ''2025-01-13''
       = Some (''X 3-4'' @ [CHR 0x0A] @ ''Y 12p'')"
proof -
  have cal: "calendar twoPatterns = twoMondays" and ps: "patterns twoPatterns = [monday, monThu]"
    by (simp_all add: twoPatterns_def editPlan_def initial_def)
  have h1: "calendar twoPatterns \<noteq> []" by (simp add: cal twoMondays_def)
  have h2: "distinct (map id' (patterns twoPatterns))" by (simp add: ps monday_def monThu_def)
  have h3: "distinct (map (dateKey seoul) (calendar twoPatterns))"
    by (simp only: cal twoMondays_distinct)
  have old: "plans twoPatterns ''2025-01-08'' = Some ''manual''"
    by (simp add: twoPatterns_def editPlan_def)
  note nth = applyAllPatterns_replaces_plans [OF h1 h2 h3, THEN conjunct2, THEN conjunct1,
      unfolded cal ps, rule_format]
  have n0: "plans (applyAllPatterns seoul twoPatterns) ''2025-01-06''
       = Some (''X 1-2'' @ [CHR 0x0A] @ ''Y 10p'')"
    using nth [of 0]
    by (simp add: twoMondays_length twoMondays_nth twoPatterns_fires twoPatterns_lines)
  have n2: "plans (applyAllPatterns seoul twoPatterns) ''2025-01-08'' = None"
    using nth [of 2] by (simp add: twoMondays_length twoMondays_nth twoPatterns_fires)
  have n3: "plans (applyAllPatterns seoul twoPatterns) ''2025-01-09'' = Some ''Y 11p''"
    using nth [of 3]
    by (simp add: twoMondays_length twoMondays_nth twoPatterns_fires twoPatterns_lines)
  have n7: "plans (applyAllPatterns seoul twoPatterns) ''2025-01-13''
       = Some (''X 3-4'' @ [CHR 0x0A] @ ''Y 12p'')"
    using nth [of 7]
    by (simp add: twoMondays_length twoMondays_nth twoPatterns_fires twoPatterns_lines)
  from h1 h2 h3 old n0 n2 n3 n7 show ?thesis by blast
qed

text \<open>
  Claim C5 on the example state: the second run gives \<open>X 1-2\<close> on the first Monday and
  \<open>X 3-4\<close> on the second, as the first run does and as the specification's algorithm does.
\<close>

theorem applyAllPatterns_idempotent_witness:
  "calendar example \<noteq> []
   \<and> calendar (example\<lparr>plans := Map.empty, plannerName := ''Q''\<rparr>) = calendar example
   \<and> patterns (example\<lparr>plans := Map.empty, plannerName := ''Q''\<rparr>) = patterns example
   \<and> distinct (map id' (patterns example))
   \<and> list_all (withinSafeRange (length (calendar example))) (patterns example)
   \<and> distinct (map (dateKey seoul) (calendar example))
   \<and> plans (applyAllPatterns seoul (example\<lparr>plans := Map.empty, plannerName := ''Q''\<rparr>))
       = plans (applyAllPatterns seoul example)
   \<and> plans (applyAllPatterns seoul (applyAllPatterns seoul example))
       = plans (applyAllPatterns seoul example)
   \<and> plans (applyAllPatterns seoul (applyAllPatterns seoul example))
       = spec_resolve seoul (calendar example) (patterns example)
   \<and> plans (applyAllPatterns seoul (applyAllPatterns seoul example)) ''2025-01-06''
       = Some ''X 1-2''
   \<and> plans (applyAllPatterns seoul (applyAllPatterns seoul example)) ''2025-01-13''
       = Some ''X 3-4''"
proof -
  have cal: "calendar example = twoMondays" and ps: "patterns example = [monday]"
    by (simp_all add: example_def editPlan_def initial_def)
  have h1: "calendar example \<noteq> []" by (simp add: cal twoMondays_def)
  have h2: "distinct (map id' (patterns example))" by (simp add: ps)
  have h3: "list_all (withinSafeRange (length (calendar example))) (patterns example)"
    by (simp only: cal ps monday_safe)
  have h4: "distinct (map (dateKey seoul) (calendar example))"
    by (simp only: cal twoMondays_distinct)
  have f1: "calendar (example\<lparr>plans := Map.empty, plannerName := ''Q''\<rparr>) = calendar example"
    and f2: "patterns (example\<lparr>plans := Map.empty, plannerName := ''Q''\<rparr>) = patterns example"
    by simp_all
  note th = applyAllPatterns_idempotent
      [of seoul example "example\<lparr>plans := Map.empty, plannerName := ''Q''\<rparr>"]
  have a: "plans (applyAllPatterns seoul (applyAllPatterns seoul example))
       = plans (applyAllPatterns seoul example)"
    using th by blast
  have b: "plans (applyAllPatterns seoul (example\<lparr>plans := Map.empty, plannerName := ''Q''\<rparr>))
       = plans (applyAllPatterns seoul example)"
    using th h1 f1 f2 by blast
  have c: "plans (applyAllPatterns seoul (applyAllPatterns seoul example))
       = spec_resolve seoul (calendar example) (patterns example)"
    using th h1 h2 h3 by blast
  have "plans (applyAllPatterns seoul (applyAllPatterns seoul example))
          (dateKey seoul (hd (calendar example)))
      = (if \<exists>p\<in>set (patterns example). shouldApply p (getDay seoul (hd (calendar example)))
         then Some (join [CHR 0x0A]
                (map (\<lambda>p. displayText p (startNum p))
                  (filter (\<lambda>p. shouldApply p (getDay seoul (hd (calendar example))))
                    (patterns example))))
         else None)"
    using th h1 h2 h4 by blast
  moreover have "hd twoMondays = twoMondays ! 0" by (simp add: twoMondays_def)
  moreover have "displayText monday (startNum monday) = ''X 1-2''"
    by (simp add: displayText_def monday_def small_numbers string_eval)
  ultimately have d: "plans (applyAllPatterns seoul (applyAllPatterns seoul example)) ''2025-01-06''
       = Some ''X 1-2''"
    by (simp add: cal ps twoMondays_nth twoPatterns_fires)
  have "plans (applyAllPatterns seoul example) ''2025-01-13'' = Some ''X 3-4''"
    using h1 by (simp add: applyAllPatterns_plans cal ps twoMondays_monday_last)
  then have e: "plans (applyAllPatterns seoul (applyAllPatterns seoul example)) ''2025-01-13''
       = Some ''X 3-4''"
    by (simp only: a)
  from h1 f1 f2 h2 h3 h4 b a c d e show ?thesis by blast
qed

theorem resolve_per_pattern_witness:
  "distinct (map id' [monday, daily])
   \<and> distinct (map (dateKey seoul) twoMondays)
   \<and> resolve seoul twoMondays [monday] ''2025-01-13'' = Some ''X 3-4''
   \<and> resolve seoul twoMondays [daily] ''2025-01-13'' = Some ''Y 17p''
   \<and> resolve seoul twoMondays [monday, daily] ''2025-01-13''
       = Some (''X 3-4'' @ [CHR 0x0A] @ ''Y 17p'')"
proof -
  have h1: "distinct (map id' [monday, daily])" by (simp add: monday_def daily_def)
  note merge = resolve_per_pattern [OF h1 twoMondays_distinct, THEN conjunct1, rule_format,
      of "''2025-01-13''"]
  have "resolve seoul twoMondays [monday, daily] ''2025-01-13''
       = Some (''X 3-4'' @ [CHR 0x0A] @ ''Y 17p'')"
    using merge by (simp add: twoMondays_monday_last twoMondays_daily)
  with h1 twoMondays_distinct twoMondays_monday_last twoMondays_daily show ?thesis by blast
qed
section \<open>Properties of the calendar builder\<close>

subsection \<open>Zones without daylight saving time\<close>

lemma datesLoop_step:
  "datesLoop tz d e =
     (if d \<le> e then d # datesLoop tz (UTC tz (LocalTime tz d + msPerDay)) e else [])"
  by (subst datesLoop.simps) (simp add: setDate_local)

lemma datesLoop_days:
  "datesLoop (Zone k []) (a * msPerDay - k) (b * msPerDay - k)
     = map (\<lambda>n. n * msPerDay - k) [a..b]"
proof (induction "nat (b - a + 1)" arbitrary: a)
  case 0
  then have "b < a" by simp
  then show ?case
    by (subst datesLoop_step) (simp add: msPerDay_def)
next
  case (Suc n)
  then have le: "a \<le> b" and n: "n = nat (b - (a + 1) + 1)" by simp_all
  have next_day: "UTC (Zone k []) (LocalTime (Zone k []) (a * msPerDay - k) + msPerDay)
      = (a + 1) * msPerDay - k"
    by (simp add: fixed_zone algebra_simps)
  have "datesLoop (Zone k []) (a * msPerDay - k) (b * msPerDay - k)
      = (a * msPerDay - k) # datesLoop (Zone k []) ((a + 1) * msPerDay - k) (b * msPerDay - k)"
  proof -
    have c: "a * msPerDay - k \<le> b * msPerDay - k" using le by (simp add: msPerDay_def)
    show ?thesis by (subst datesLoop_step) (simp only: c if_True next_day)
  qed
  also have "\<dots> = (a * msPerDay - k) # map (\<lambda>n. n * msPerDay - k) [a + 1..b]"
    using Suc.hyps(1) [OF n] by simp
  also have "\<dots> = map (\<lambda>n. n * msPerDay - k) [a..b]"
    using le by (simp add: upto_rec1 [of a b])
  finally show ?case .
qed

lemma Day_shift:
  assumes "- msPerDay < k" and "k < msPerDay"
  shows "Day (n * msPerDay + k) = n + k div msPerDay"
  by (simp add: Day_def msPerDay_def)

lemma monthStart_nonneg: "0 \<le> l \<Longrightarrow> 0 \<le> monthStart m l"
  by (simp add: monthStart_def)

lemma dayNumber_ge:
  assumes "validDate c"
  shows "DayFromYear 1000 \<le> dayNumber c"
proof -
  have m: "(month c - 1) div 12 = 0" "(month c - 1) mod 12 = month c - 1"
    using assms by (simp_all add: validDate_def)
  have "0 \<le> monthStart (month c - 1) (if DaysInYear (year c) = 366 then 1 else 0)"
    by (rule monthStart_nonneg) simp
  then have "DayFromYear (year c) \<le> dayNumber c"
    using assms by (simp add: dayNumber_def MakeDay_def Let_def m validDate_def)
  moreover have "DayFromYear 1000 \<le> DayFromYear (year c)"
    using assms by (intro DayFromYear_mono) (simp add: validDate_def)
  ultimately show ?thesis by linarith
qed

lemma DayFromYear_100_1000: "DayFromYear 100 \<le> DayFromYear 1000 - 1"
  by (simp add: DayFromYear_def)

lemma localDay_parseDate:
  assumes "- msPerDay < k" and "k < msPerDay"
  shows "localDay (Zone k []) (n * msPerDay) = n + k div msPerDay"
  using Day_shift [OF assms] by (simp add: localDay_def fixed_zone)

lemma offset_div:
  assumes "- msPerDay < k" and "k < msPerDay"
  shows "k div msPerDay = (if 0 \<le> k then 0 else - 1)"
proof (cases "0 \<le> k")
  case True
  then show ?thesis using assms by (simp add: div_pos_pos_trivial)
next
  case False
  have "k = msPerDay * (- 1) + (k + msPerDay)" by simp
  moreover have "0 \<le> k + msPerDay" "k + msPerDay < msPerDay" using assms False by simp_all
  ultimately have "k div msPerDay = - 1" by (rule int_div_pos_eq)
  then show ?thesis using False by simp
qed

lemma newDate_parseDate:
  assumes "- msPerDay < k" and "k < msPerDay" and "validDate c"
  shows "newDate (Zone k []) (getFullYear (Zone k []) (dayNumber c * msPerDay))
           (getMonth (Zone k []) (dayNumber c * msPerDay))
           (getDate (Zone k []) (dayNumber c * msPerDay))
         = (dayNumber c + k div msPerDay) * msPerDay - k"
proof -
  have ld: "Day (LocalTime (Zone k []) (dayNumber c * msPerDay)) = dayNumber c + k div msPerDay"
    using localDay_parseDate [OF assms(1,2)] by (simp only: localDay_def)
  have "- 1 \<le> k div msPerDay" using offset_div [OF assms(1,2)] by simp
  then have ge: "DayFromYear 100 \<le> Day (LocalTime (Zone k []) (dayNumber c * msPerDay))"
    unfolding ld using dayNumber_ge [OF assms(3)] DayFromYear_100_1000 by linarith
  show ?thesis
    unfolding newDate_components [OF ge] ld by (simp add: fixed_zone)
qed

lemma generateCalendar_range:
  assumes k: "- msPerDay < k" "k < msPerDay"
    and s: "startDate st = isoText s" "validDate s"
    and e: "endDate st = isoText e" "validDate e"
  shows "generateCalendar (Zone k []) st =
           (if dayNumber e < dayNumber s then alert EndBeforeStart st
            else if 400 < dayNumber e - dayNumber s + 1 then alert (SpanTooLong 400) st
            else st\<lparr>calendar := map (\<lambda>n. n * msPerDay - k)
                     [dayNumber s + k div msPerDay..dayNumber e + k div msPerDay]\<rparr>)"
proof -
  define a where "a = dayNumber s + k div msPerDay"
  define b where "b = dayNumber e + k div msPerDay"
  define tz where "tz = Zone k []"
  have sa: "newDate tz (getFullYear tz (dayNumber s * msPerDay))
              (getMonth tz (dayNumber s * msPerDay)) (getDate tz (dayNumber s * msPerDay))
            = a * msPerDay - k"
    unfolding a_def tz_def using k s(2) by (rule newDate_parseDate)
  have eb: "newDate tz (getFullYear tz (dayNumber e * msPerDay))
              (getMonth tz (dayNumber e * msPerDay)) (getDate tz (dayNumber e * msPerDay))
            = b * msPerDay - k"
    unfolding b_def tz_def using k e(2) by (rule newDate_parseDate)
  have present: "\<not> (isoText s = [] \<or> isoText e = [])"
    by (simp add: isoText_nonempty)
  have lt: "b * msPerDay - k < a * msPerDay - k \<longleftrightarrow> dayNumber e < dayNumber s"
    by (simp add: a_def b_def msPerDay_def)
  have "b * msPerDay - k - (a * msPerDay - k) = (dayNumber e - dayNumber s) * 86400000"
    by (simp add: a_def b_def msPerDay_def algebra_simps)
  then have span: "(getTime (b * msPerDay - k) - getTime (a * msPerDay - k))
                     div (24 * 60 * 60 * 1000) + 1 = dayNumber e - dayNumber s + 1"
    by (simp add: getTime_def)
  have loop: "datesLoop tz (a * msPerDay - k) (b * msPerDay - k)
      = map (\<lambda>n. n * msPerDay - k) [a..b]"
    unfolding tz_def by (rule datesLoop_days)
  have "generateCalendar tz st =
           (if dayNumber e < dayNumber s then alert EndBeforeStart st
            else if 400 < dayNumber e - dayNumber s + 1 then alert (SpanTooLong 400) st
            else st\<lparr>calendar := map (\<lambda>n. n * msPerDay - k) [a..b]\<rparr>)"
    unfolding generateCalendar_def s(1) e(1) parseDate_isoText [OF s(2)]
      parseDate_isoText [OF e(2)]
    by (simp only: present if_False prod.case option.case Let_def sa eb lt span loop)
  then show ?thesis by (simp only: a_def b_def tz_def)
qed

lemma localDay_midnight: "localDay (Zone k []) (n * msPerDay - k) = n"
  by (simp add: localDay_def fixed_zone Day_def msPerDay_def)

lemma TimeWithinDay_midnight: "TimeWithinDay (LocalTime (Zone k []) (n * msPerDay - k)) = 0"
  by (simp add: TimeWithinDay_def fixed_zone)

lemma sorted_midnights: "sorted_wrt (<) (map (\<lambda>n. n * msPerDay - k) [a..b])"
proof -
  have "sorted_wrt (<) [a..b]" by (simp add: strict_sorted_iff)
  then show ?thesis
    by (simp add: sorted_wrt_map msPerDay_def)
qed

lemma generateCalendar_valid:
  assumes k: "- msPerDay < k" "k < msPerDay"
    and s: "startDate st = isoText s" "validDate s"
    and e: "endDate st = isoText e" "validDate e"
    and le: "dayNumber s \<le> dayNumber e" and span: "dayNumber e - dayNumber s + 1 \<le> 400"
  shows "calendar (generateCalendar (Zone k []) st)
           = map (\<lambda>n. n * msPerDay - k)
               [dayNumber s + (if 0 \<le> k then 0 else - 1)..
                dayNumber e + (if 0 \<le> k then 0 else - 1)]"
  using le span
  by (simp add: generateCalendar_range [OF k s e] offset_div [OF k])

lemma distinct_keys:
  assumes "distinct (map (localDay tz) xs)"
  shows "distinct (map (dateKey tz) xs)"
proof -
  have "inj_on (localDay tz) (set xs)" and "distinct xs"
    using assms by (simp_all add: distinct_map)
  then have "inj_on (dateKey tz) (set xs)"
    by (auto simp: inj_on_def dateKey_localDay)
  then show ?thesis using \<open>distinct xs\<close> by (simp add: distinct_map)
qed

text \<open>
  In a zone without daylight saving time, less than a day from UTC, a valid range of
  real days of at most 400 days gives as many \<open>Date\<close>s as the range has days, each at
  local midnight, strictly ascending, with distinct keys, on consecutive local days: the
  days of the range itself when the zone is at or east of UTC, and the days from the day
  before the start to the day before the end when it is west of UTC.
\<close>

theorem generateCalendar_days:
  assumes k: "- msPerDay < k" "k < msPerDay"
    and s: "startDate st = isoText s" "validDate s"
    and e: "endDate st = isoText e" "validDate e"
    and le: "dayNumber s \<le> dayNumber e" and span: "dayNumber e - dayNumber s + 1 \<le> 400"
  shows "map (localDay (Zone k [])) (calendar (generateCalendar (Zone k []) st))
           = [dayNumber s + (if 0 \<le> k then 0 else - 1)..
              dayNumber e + (if 0 \<le> k then 0 else - 1)]
       \<and> length (calendar (generateCalendar (Zone k []) st))
           = nat (dayNumber e - dayNumber s + 1)
       \<and> sorted_wrt (<) (calendar (generateCalendar (Zone k []) st))
       \<and> distinct (map (dateKey (Zone k [])) (calendar (generateCalendar (Zone k []) st)))
       \<and> (\<forall>d\<in>set (calendar (generateCalendar (Zone k []) st)).
             TimeWithinDay (LocalTime (Zone k []) d) = 0)"
proof -
  note cal = generateCalendar_valid [OF assms]
  have a: "map (localDay (Zone k [])) (calendar (generateCalendar (Zone k []) st))
           = [dayNumber s + (if 0 \<le> k then 0 else - 1)..
              dayNumber e + (if 0 \<le> k then 0 else - 1)]"
    unfolding cal by (simp add: comp_def localDay_midnight)
  have b: "length (calendar (generateCalendar (Zone k []) st))
      = nat (dayNumber e - dayNumber s + 1)"
    unfolding cal by simp
  have c: "sorted_wrt (<) (calendar (generateCalendar (Zone k []) st))"
    unfolding cal by (rule sorted_midnights)
  have "distinct (map (localDay (Zone k [])) (calendar (generateCalendar (Zone k []) st)))"
    by (simp only: a distinct_upto)
  then have d: "distinct (map (dateKey (Zone k [])) (calendar (generateCalendar (Zone k []) st)))"
    by (rule distinct_keys)
  have e: "\<forall>d\<in>set (calendar (generateCalendar (Zone k []) st)).
      TimeWithinDay (LocalTime (Zone k []) d) = 0"
    unfolding cal by (auto simp: TimeWithinDay_midnight)
  from a b c d e show ?thesis by blast
qed

subsection \<open>Evaluation on the example ranges\<close>

lemma threeDays_valid:
  "validDate \<lparr>year = 2025, month = 1, day = 1\<rparr>" "validDate \<lparr>year = 2025, month = 1, day = 3\<rparr>"
  by (simp_all add: validDate_def daysInMonth_def)

lemma threeDays_dayNumber:
  "dayNumber \<lparr>year = 2025, month = 1, day = 1\<rparr> = 20089"
  "dayNumber \<lparr>year = 2025, month = 1, day = 3\<rparr> = 20091"
  by (simp_all add: dayNumber_def date_eval)

lemma threeDays_text:
  "isoText \<lparr>year = 2025, month = 1, day = 1\<rparr> = ''2025-01-01''"
  "isoText \<lparr>year = 2025, month = 1, day = 3\<rparr> = ''2025-01-03''"
  by (simp_all add: isoText_def string_eval)

lemma threeDays_range:
  "startDate threeDays = isoText \<lparr>year = 2025, month = 1, day = 1\<rparr>"
  "endDate threeDays = isoText \<lparr>year = 2025, month = 1, day = 3\<rparr>"
  by (simp_all add: threeDays_def initial_def threeDays_text)

theorem generateCalendar_days_witness:
  "- msPerDay < 32400000 \<and> 32400000 < msPerDay
   \<and> startDate threeDays = isoText \<lparr>year = 2025, month = 1, day = 1\<rparr>
   \<and> validDate \<lparr>year = 2025, month = 1, day = 1\<rparr>
   \<and> endDate threeDays = isoText \<lparr>year = 2025, month = 1, day = 3\<rparr>
   \<and> validDate \<lparr>year = 2025, month = 1, day = 3\<rparr>
   \<and> dayNumber \<lparr>year = 2025, month = 1, day = 1\<rparr> \<le> dayNumber \<lparr>year = 2025, month = 1, day = 3\<rparr>
   \<and> dayNumber \<lparr>year = 2025, month = 1, day = 3\<rparr> - dayNumber \<lparr>year = 2025, month = 1, day = 1\<rparr> + 1 \<le> 400
   \<and> map (localDay seoul) (calendar (generateCalendar seoul threeDays)) = [20089, 20090, 20091]
   \<and> length (calendar (generateCalendar seoul threeDays)) = 3
   \<and> distinct (map (dateKey seoul) (calendar (generateCalendar seoul threeDays)))"
proof -
  have k: "- msPerDay < 32400000" "32400000 < msPerDay" by (simp_all add: msPerDay_def)
  have le: "dayNumber \<lparr>year = 2025, month = 1, day = 1\<rparr> \<le> dayNumber \<lparr>year = 2025, month = 1, day = 3\<rparr>"
    and span: "dayNumber \<lparr>year = 2025, month = 1, day = 3\<rparr> - dayNumber \<lparr>year = 2025, month = 1, day = 1\<rparr> + 1 \<le> 400"
    by (simp_all add: threeDays_dayNumber)
  note th = generateCalendar_days [OF k threeDays_range(1) threeDays_valid(1)
      threeDays_range(2) threeDays_valid(2) le span, folded seoul_def]
  have "map (localDay seoul) (calendar (generateCalendar seoul threeDays)) = [20089, 20090, 20091]"
    using th by (simp add: threeDays_dayNumber upto_rec1)
  moreover have "length (calendar (generateCalendar seoul threeDays)) = 3"
    using th by (simp add: threeDays_dayNumber)
  moreover have "distinct (map (dateKey seoul) (calendar (generateCalendar seoul threeDays)))"
    using th by blast
  ultimately show ?thesis
    using k threeDays_range threeDays_valid le span by blast
qed

lemma threeDays_parse:
  "parseDate ''2025-01-01'' = Some 1735689600000"
  "parseDate ''2025-01-03'' = Some 1735862400000"
  using parseDate_isoText [OF threeDays_valid(1)] parseDate_isoText [OF threeDays_valid(2)]
  by (simp_all add: threeDays_text threeDays_dayNumber msPerDay_def)

lemma threeDays_newYork_range:
  "newDate newYork (getFullYear newYork 1735689600000) (getMonth newYork 1735689600000)
     (getDate newYork 1735689600000) = 1735621200000"
  "newDate newYork (getFullYear newYork 1735862400000) (getMonth newYork 1735862400000)
     (getDate newYork 1735862400000) = 1735794000000"
  by (simp_all add: newYork_def date_eval)

lemma threeDays_newYork_loop:
  "datesLoop newYork 1735621200000 1735794000000
     = [1735621200000, 1735707600000, 1735794000000]"
  by (simp add: datesLoop_step newYork_def fixed_zone msPerDay_def)

lemma threeDays_newYork_calendar:
  "calendar (generateCalendar newYork threeDays) = [1735621200000, 1735707600000, 1735794000000]"
  by (simp add: generateCalendar_def threeDays_def initial_def threeDays_parse
      threeDays_newYork_range threeDays_newYork_loop getTime_def Let_def)

lemma threeDays_newYork_keys:
  "map (dateKey newYork) [1735621200000, 1735707600000, 1735794000000]
     = [''2024-12-31'', ''2025-01-01'', ''2025-01-02'']"
  by (simp add: newYork_def date_eval string_eval)

lemma picked_newYork:
  "dateKey newYork 1735707600000 = ''2025-01-01''"
  "dateKey newYork 1735880400000 = ''2025-01-03''"
  using threeDays_newYork_keys by (simp_all add: newYork_def date_eval string_eval)

text \<open>
  Claim C2, in a zone west of UTC. In \<open>newYork\<close>, picking the local days 2025-01-01 and
  2025-01-03 in the range picker stores the texts 2025-01-01 and 2025-01-03; for that
  range the generated calendar is the three local days 2024-12-31, 2025-01-01 and
  2025-01-02: as many days as the range has, in ascending order, but not the days of the
  range.
\<close>

theorem generateCalendar_west_of_UTC:
  "onSelect newYork (Some 1735707600000) (Some 1735880400000) (initial ''P'' ''X'' [] 0)
     = threeDays
   \<and> startDate threeDays = ''2025-01-01''
   \<and> endDate threeDays = ''2025-01-03''
   \<and> map (dateKey newYork) (calendar (generateCalendar newYork threeDays))
       = [''2024-12-31'', ''2025-01-01'', ''2025-01-02'']"
proof -
  have "onSelect newYork (Some 1735707600000) (Some 1735880400000) (initial ''P'' ''X'' [] 0)
      = threeDays"
    by (simp add: onSelect_def threeDays_def picked_newYork)
  moreover have "startDate threeDays = ''2025-01-01''" "endDate threeDays = ''2025-01-03''"
    by (simp_all add: threeDays_def initial_def)
  moreover have "map (dateKey newYork) (calendar (generateCalendar newYork threeDays))
       = [''2024-12-31'', ''2025-01-01'', ''2025-01-02'']"
    by (simp only: threeDays_newYork_calendar threeDays_newYork_keys)
  ultimately show ?thesis by blast
qed

lemma overAYear_valid:
  "validDate \<lparr>year = 2025, month = 3, day = 1\<rparr>" "validDate \<lparr>year = 2026, month = 4, day = 5\<rparr>"
  by (simp_all add: validDate_def daysInMonth_def)

lemma overAYear_text:
  "isoText \<lparr>year = 2025, month = 3, day = 1\<rparr> = ''2025-03-01''"
  "isoText \<lparr>year = 2026, month = 4, day = 5\<rparr> = ''2026-04-05''"
  by (simp_all add: isoText_def string_eval)

lemma overAYear_range:
  "startDate overAYear = ''2025-03-01''"
  "endDate overAYear = ''2026-04-05''"
  "alerts overAYear = []"
  by (simp_all add: overAYear_def initial_def)

lemma overAYear_dayNumber:
  "dayNumber \<lparr>year = 2025, month = 3, day = 1\<rparr> = 20148"
  "dayNumber \<lparr>year = 2026, month = 4, day = 5\<rparr> = 20548"
  by (simp_all add: dayNumber_def date_eval)

lemma overAYear_parse:
  "parseDate ''2025-03-01'' = Some 1740787200000"
  "parseDate ''2026-04-05'' = Some 1775347200000"
  using parseDate_isoText [OF overAYear_valid(1)] parseDate_isoText [OF overAYear_valid(2)]
  by (simp_all add: overAYear_text overAYear_dayNumber msPerDay_def)

lemma overAYear_berlin_range:
  "newDate berlin (getFullYear berlin 1740787200000) (getMonth berlin 1740787200000)
     (getDate berlin 1740787200000) = 1740783600000"
  "newDate berlin (getFullYear berlin 1775347200000) (getMonth berlin 1775347200000)
     (getDate berlin 1775347200000) = 1775340000000"
  by (simp_all add: berlin_def date_eval)

lemma overAYear_berlin_result:
  "generateCalendar berlin overAYear
     = overAYear\<lparr>calendar := datesLoop berlin 1740783600000 1775340000000\<rparr>"
  by (simp add: generateCalendar_def overAYear_range overAYear_parse overAYear_berlin_range
      getTime_def Let_def)

lemma overAYear_berlin_drop:
  "drop 400 (datesLoop berlin 1740783600000 1775340000000) = [1775340000000]"
  by (simp add: datesLoop_step berlin_def UTC_def LocalTime_def LocalTZA_def inDST_def
      msPerHour_def msPerDay_def)

lemma overAYear_berlin_length:
  "length (datesLoop berlin 1740783600000 1775340000000) = 401"
proof -
  have "length (drop 400 (datesLoop berlin 1740783600000 1775340000000)) = 1"
    by (simp add: overAYear_berlin_drop)
  then show ?thesis by (simp only: length_drop)
qed

lemma overAYear_berlin_last:
  "last (datesLoop berlin 1740783600000 1775340000000) = 1775340000000"
proof -
  have "last (drop 400 (datesLoop berlin 1740783600000 1775340000000)) = 1775340000000"
    by (simp add: overAYear_berlin_drop)
  moreover have "400 < length (datesLoop berlin 1740783600000 1775340000000)"
    by (simp only: overAYear_berlin_length)
  ultimately show ?thesis by (simp only: last_drop)
qed

lemma overAYear_berlin_keys:
  "dateKey berlin 1740783600000 = ''2025-03-01''"
  "dateKey berlin 1775340000000 = ''2026-04-05''"
  by (simp_all add: berlin_def date_eval string_eval)

text \<open>
  Claim C3, in a zone with daylight saving time. In \<open>berlin\<close> the range from 2025-03-01
  to 2026-04-05 has 401 days, and it spans two switches to daylight saving time and one
  back: the two local midnights are 400 days less one hour apart, the check computes 400
  days, no message is shown and a calendar of 401 days is stored.
\<close>

theorem generateCalendar_accepts_401_days:
  "startDate overAYear = isoText \<lparr>year = 2025, month = 3, day = 1\<rparr>
   \<and> endDate overAYear = isoText \<lparr>year = 2026, month = 4, day = 5\<rparr>
   \<and> dayNumber \<lparr>year = 2026, month = 4, day = 5\<rparr>
       - dayNumber \<lparr>year = 2025, month = 3, day = 1\<rparr> + 1 = 401
   \<and> spec_rangeInvalid (Some \<lparr>year = 2025, month = 3, day = 1\<rparr>)
        (Some \<lparr>year = 2026, month = 4, day = 5\<rparr>)
   \<and> alerts (generateCalendar berlin overAYear) = alerts overAYear
   \<and> length (calendar (generateCalendar berlin overAYear)) = 401
   \<and> dateKey berlin (hd (calendar (generateCalendar berlin overAYear))) = ''2025-03-01''
   \<and> dateKey berlin (last (calendar (generateCalendar berlin overAYear))) = ''2026-04-05''"
proof -
  have r: "startDate overAYear = isoText \<lparr>year = 2025, month = 3, day = 1\<rparr>"
    "endDate overAYear = isoText \<lparr>year = 2026, month = 4, day = 5\<rparr>"
    by (simp_all only: overAYear_range overAYear_text)
  have n: "dayNumber \<lparr>year = 2026, month = 4, day = 5\<rparr>
       - dayNumber \<lparr>year = 2025, month = 3, day = 1\<rparr> + 1 = 401"
    by (simp add: overAYear_dayNumber)
  have inv: "spec_rangeInvalid (Some \<lparr>year = 2025, month = 3, day = 1\<rparr>)
        (Some \<lparr>year = 2026, month = 4, day = 5\<rparr>)"
    by (simp add: spec_rangeInvalid_def overAYear_dayNumber)
  have a: "alerts (generateCalendar berlin overAYear) = alerts overAYear"
    by (simp add: overAYear_berlin_result)
  have l: "length (calendar (generateCalendar berlin overAYear)) = 401"
    by (simp add: overAYear_berlin_result overAYear_berlin_length)
  have "hd (calendar (generateCalendar berlin overAYear)) = 1740783600000"
    by (simp add: overAYear_berlin_result) (subst datesLoop_step, simp)
  then have h: "dateKey berlin (hd (calendar (generateCalendar berlin overAYear))) = ''2025-03-01''"
    by (simp only: overAYear_berlin_keys)
  have "last (calendar (generateCalendar berlin overAYear)) = 1775340000000"
    by (simp add: overAYear_berlin_result overAYear_berlin_last)
  then have t: "dateKey berlin (last (calendar (generateCalendar berlin overAYear))) = ''2026-04-05''"
    by (simp only: overAYear_berlin_keys)
  from r n inv a l h t show ?thesis by blast
qed

subsection \<open>Validation\<close>

lemma alert_alerts: "alert a st = st\<lparr>alerts := alerts st @ [a]\<rparr>"
  by (simp add: alert_def)

text \<open>
  In a zone without daylight saving time, less than a day from UTC, and for a range whose
  texts are those of the ends \<open>s\<close> and \<open>e\<close> (empty for an absent end, the text of a real
  day otherwise): generating the calendar shows a message exactly when the range is
  invalid in the specification's sense, and then the state is the one before with that
  message added and nothing else changed. In every zone, applying the patterns and
  exporting, on an empty calendar, each leave the state as it was but for the message:
  the plan map is unchanged, nothing is attached to the document and no file is saved.
\<close>

theorem validation_failures:
  assumes "- msPerDay < k" and "k < msPerDay"
    and "startDate st = rangeText s" and "endDate st = rangeText e"
    and "\<forall>c. s = Some c \<longrightarrow> validDate c"
    and "\<forall>c. e = Some c \<longrightarrow> validDate c"
  shows "(spec_rangeInvalid s e \<longrightarrow>
            (\<exists>a. generateCalendar (Zone k []) st = st\<lparr>alerts := alerts st @ [a]\<rparr>))
       \<and> (\<not> spec_rangeInvalid s e \<longrightarrow> alerts (generateCalendar (Zone k []) st) = alerts st)
       \<and> (calendar st = [] \<longrightarrow>
            applyAllPatterns tz st = st\<lparr>alerts := alerts st @ [GenerateCalendarFirst]\<rparr>
          \<and> exportToPDF tz html2canvas jsPDF st
              = st\<lparr>alerts := alerts st @ [GenerateCalendarFirst]\<rparr>)"
proof -
  have gen: "(spec_rangeInvalid s e \<longrightarrow>
            (\<exists>a. generateCalendar (Zone k []) st = st\<lparr>alerts := alerts st @ [a]\<rparr>))
       \<and> (\<not> spec_rangeInvalid s e \<longrightarrow> alerts (generateCalendar (Zone k []) st) = alerts st)"
  proof (cases s)
    case None
    then have "startDate st = []" using assms(3) by (simp add: rangeText_def)
    then show ?thesis
      using None by (auto simp: spec_rangeInvalid_def generateCalendar_def alert_alerts)
  next
    case (Some s')
    note s = this
    show ?thesis
    proof (cases e)
      case None
      then have "endDate st = []" using assms(4) by (simp add: rangeText_def)
      then show ?thesis
        using s None by (auto simp: spec_rangeInvalid_def generateCalendar_def alert_alerts)
    next
      case (Some e')
      have vs: "validDate s'" and ve: "validDate e'" using assms(5,6) s Some by simp_all
      have ts: "startDate st = isoText s'" and te: "endDate st = isoText e'"
        using assms(3,4) s Some by (simp_all add: rangeText_def)
      show ?thesis
        unfolding generateCalendar_range [OF assms(1,2) ts vs te ve]
        using s Some by (auto simp: spec_rangeInvalid_def alert_alerts)
    qed
  qed
  have rest: "calendar st = [] \<longrightarrow>
            applyAllPatterns tz st = st\<lparr>alerts := alerts st @ [GenerateCalendarFirst]\<rparr>
          \<and> exportToPDF tz html2canvas jsPDF st
              = st\<lparr>alerts := alerts st @ [GenerateCalendarFirst]\<rparr>"
    by (simp add: applyAllPatterns_def exportToPDF_def alert_alerts)
  from gen rest show ?thesis by blast
qed

theorem validation_failures_witness:
  "- msPerDay < 32400000 \<and> 32400000 < msPerDay
   \<and> startDate tooLong = rangeText (Some \<lparr>year = 2025, month = 1, day = 1\<rparr>)
   \<and> validDate \<lparr>year = 2025, month = 1, day = 1\<rparr>
   \<and> endDate tooLong = rangeText (Some \<lparr>year = 2026, month = 3, day = 1\<rparr>)
   \<and> validDate \<lparr>year = 2026, month = 3, day = 1\<rparr>
   \<and> spec_rangeInvalid (Some \<lparr>year = 2025, month = 1, day = 1\<rparr>)
        (Some \<lparr>year = 2026, month = 3, day = 1\<rparr>)
   \<and> (\<exists>a. generateCalendar seoul tooLong = tooLong\<lparr>alerts := alerts tooLong @ [a]\<rparr>)
   \<and> calendar tooLong = []
   \<and> applyAllPatterns seoul tooLong = tooLong\<lparr>alerts := alerts tooLong @ [GenerateCalendarFirst]\<rparr>
   \<and> plans (applyAllPatterns seoul tooLong) ''2025-01-01'' = Some ''manual''"
proof -
  have k: "- msPerDay < 32400000" "32400000 < msPerDay" by (simp_all add: msPerDay_def)
  have t: "isoText \<lparr>year = 2026, month = 3, day = 1\<rparr> = ''2026-03-01''"
    by (simp add: isoText_def string_eval)
  have s: "startDate tooLong = rangeText (Some \<lparr>year = 2025, month = 1, day = 1\<rparr>)"
    and e: "endDate tooLong = rangeText (Some \<lparr>year = 2026, month = 3, day = 1\<rparr>)"
    and c: "calendar tooLong = []"
    and p: "plans tooLong ''2025-01-01'' = Some ''manual''"
    by (simp_all add: tooLong_def editPlan_def initial_def rangeText_def threeDays_text t)
  have ve: "validDate \<lparr>year = 2026, month = 3, day = 1\<rparr>"
    by (simp add: validDate_def daysInMonth_def)
  have n: "dayNumber \<lparr>year = 2026, month = 3, day = 1\<rparr> = 20513"
    by (simp add: dayNumber_def date_eval)
  have inv: "spec_rangeInvalid (Some \<lparr>year = 2025, month = 1, day = 1\<rparr>)
        (Some \<lparr>year = 2026, month = 3, day = 1\<rparr>)"
    by (simp add: spec_rangeInvalid_def n threeDays_dayNumber)
  have h3: "\<forall>c. Some \<lparr>year = 2025, month = 1, day = 1\<rparr> = Some c \<longrightarrow> validDate c"
    and h4: "\<forall>c. Some \<lparr>year = 2026, month = 3, day = 1\<rparr> = Some c \<longrightarrow> validDate c"
    using threeDays_valid(1) ve by simp_all
  note th = validation_failures [OF k s e h3 h4, folded seoul_def]
  have g: "\<exists>a. generateCalendar seoul tooLong = tooLong\<lparr>alerts := alerts tooLong @ [a]\<rparr>"
    using th inv by blast
  have a: "applyAllPatterns seoul tooLong = tooLong\<lparr>alerts := alerts tooLong @ [GenerateCalendarFirst]\<rparr>"
    using th c by blast
  have "plans (applyAllPatterns seoul tooLong) ''2025-01-01'' = Some ''manual''"
    by (simp add: a p)
  with k s e threeDays_valid(1) ve inv g c a show ?thesis by blast
qed
section \<open>Properties of the export\<close>

lemma exportToPDF_raster_failure:
  assumes "calendar st \<noteq> []"
    and "html2canvas \<lparr>node = created st, innerHTML = gridHTML tz st\<rparr> = Inl err"
  shows "exportToPDF tz html2canvas jsPDF st
           = st\<lparr>created := created st + 1,
                body := body st @ [\<lparr>node = created st, innerHTML = gridHTML tz st\<rparr>],
                console := console st @ [err],
                alerts := alerts st @ [PdfFailed]\<rparr>"
  using assms by (simp add: exportToPDF_def Let_def catch_def alert_def)

lemma removeChild_fresh:
  assumes "\<forall>x\<in>set children. node x < node c"
  shows "removeChild c (children @ [c]) = children"
  using assms by (induction children) (auto simp: removeChild_def)

lemma exportToPDF_assembly_failure:
  assumes "calendar st \<noteq> []"
    and "\<forall>x\<in>set (body st). node x < created st"
    and "html2canvas \<lparr>node = created st, innerHTML = gridHTML tz st\<rparr> = Inr cv"
    and "jsPDF cv (plannerName st @ ''_'' @ format tz (hd (calendar st)) [] @ ''.pdf'') = Inl err"
  shows "exportToPDF tz html2canvas jsPDF st
           = st\<lparr>created := created st + 1,
                console := console st @ [err],
                alerts := alerts st @ [PdfFailed]\<rparr>"
proof -
  have "removeChild \<lparr>node = created st, innerHTML = gridHTML tz st\<rparr>
          (body st @ [\<lparr>node = created st, innerHTML = gridHTML tz st\<rparr>]) = body st"
    using assms(2) by (intro removeChild_fresh) simp
  then show ?thesis
    using assms(1,3,4) by (simp add: exportToPDF_def Let_def catch_def alert_def)
qed

lemma exportToPDF_success:
  assumes "calendar st \<noteq> []"
    and "\<forall>x\<in>set (body st). node x < created st"
    and "html2canvas \<lparr>node = created st, innerHTML = gridHTML tz st\<rparr> = Inr cv"
    and "jsPDF cv (plannerName st @ ''_'' @ format tz (hd (calendar st)) [] @ ''.pdf'') = Inr file"
  shows "exportToPDF tz html2canvas jsPDF st
           = st\<lparr>created := created st + 1, saved := saved st @ [file]\<rparr>"
proof -
  have "removeChild \<lparr>node = created st, innerHTML = gridHTML tz st\<rparr>
          (body st @ [\<lparr>node = created st, innerHTML = gridHTML tz st\<rparr>]) = body st"
    using assms(2) by (intro removeChild_fresh) simp
  then show ?thesis
    using assms(1,3,4) by (simp add: exportToPDF_def Let_def)
qed

text \<open>
  Claim C7, when rasterization throws. On the example state (eight days, nothing attached
  to the document), with an \<open>html2canvas\<close> that throws, the export ends with the
  temporary container still attached to the document body; with an \<open>html2canvas\<close> that
  returns and a \<open>jsPDF\<close> that throws, it ends with the body as it was.
\<close>

theorem exportToPDF_raster_failure_leaks:
  "body example = []
   \<and> body (exportToPDF tz (\<lambda>c. Inl err) jsPDF example)
       = [\<lparr>node = created example, innerHTML = gridHTML tz example\<rparr>]
   \<and> alerts (exportToPDF tz (\<lambda>c. Inl err) jsPDF example) = [PdfFailed]
   \<and> body (exportToPDF tz (\<lambda>c. Inr cv) (\<lambda>c name. Inl err) example) = []"
proof -
  have c: "calendar example \<noteq> []"
    by (simp add: example_def editPlan_def initial_def twoMondays_def)
  have b: "body example = []" and a: "alerts example = []"
    by (simp_all add: example_def editPlan_def initial_def)
  have f: "\<forall>x\<in>set (body example). node x < created example" by (simp add: b)
  have "body (exportToPDF tz (\<lambda>c. Inl err) jsPDF example)
       = [\<lparr>node = created example, innerHTML = gridHTML tz example\<rparr>]"
    and "alerts (exportToPDF tz (\<lambda>c. Inl err) jsPDF example) = [PdfFailed]"
    by (simp_all add: exportToPDF_raster_failure [OF c] a b)
  moreover have "body (exportToPDF tz (\<lambda>c. Inr cv) (\<lambda>c name. Inl err) example) = []"
    by (simp add: exportToPDF_assembly_failure [OF c f] b)
  ultimately show ?thesis using b by blast
qed

lemma replaceChar_Nil: "replaceChar c r [] = []"
  by (simp add: replaceChar_def)

lemma replaceChar_Cons: "replaceChar c r (x # xs) = (if x = c then r else [x]) @ replaceChar c r xs"
  by (simp add: replaceChar_def)

lemma escHTML_Nil: "escHTML [] = []"
  by (simp add: escHTML_def)

lemma escHTML_Cons:
  "escHTML (c # s) =
     (if c = CHR ''&'' then ''&amp;''
      else if c = CHR ''<'' then ''&lt;''
      else if c = CHR ''>'' then ''&gt;''
      else if c = CHR 0x22 then ''&quot;''
      else if c = CHR 0x27 then ''&#39;''
      else [c]) @ escHTML s"
  by (simp add: escHTML_def)

lemma replaceChar_append: "replaceChar c r (xs @ ys) = replaceChar c r xs @ replaceChar c r ys"
  by (simp add: replaceChar_def)

lemma planText_escaped:
  assumes "CHR ''&'' \<notin> set v" and "CHR 0x22 \<notin> set v" and "CHR 0x27 \<notin> set v"
    and "plans' key = Some v"
  shows "planText plans' key = spec_planText plans' key"
proof -
  have "replaceChar CHR ''>'' ''&gt;'' (replaceChar CHR ''<'' ''&lt;'' v) = escHTML v"
    using assms(1-3)
    by (induction v) (auto simp: replaceChar_Nil replaceChar_Cons escHTML_Nil escHTML_Cons)
  then show ?thesis by (simp add: planText_def spec_planText_def assms(4))
qed

lemma dateDisplay_modes:
  "dateDisplay DayOnly tz date = String (getDate tz date)"
  "dateDisplay MonthDay tz date = String (getMonth tz date + 1) @ ''/'' @ String (getDate tz date)"
  by (simp_all add: dateDisplay_def)

lemmas text_eval = planText_def spec_planText_def replaceChar_Nil replaceChar_Cons
  escHTML_Nil escHTML_Cons

text \<open>
  Claim C9, on a text with an ampersand. For the stored text \<open>a &lt; b\<close> (eight
  characters) the export writes the text as it is, where escaping gives
  \<open>a &amp;lt; b\<close>; the cell is the same as the cell of the stored text \<open>a < b\<close>. The
  quotes are written as they are too. The characters \<open><\<close> and \<open>>\<close> and the newline
  are treated as the claim says, and so are the two forms of the date label.
\<close>

theorem planText_ampersand_unescaped:
  "planText [''2025-01-06'' \<mapsto> ''a &lt; b''] ''2025-01-06'' = ''a &lt; b''
   \<and> spec_planText [''2025-01-06'' \<mapsto> ''a &lt; b''] ''2025-01-06'' = ''a &amp;lt; b''
   \<and> planText [''2025-01-06'' \<mapsto> ''a < b''] ''2025-01-06'' = ''a &lt; b''
   \<and> planText [''2025-01-06'' \<mapsto> [CHR 0x22, CHR ''x'', CHR 0x27, CHR 0x0A, CHR ''>'']] ''2025-01-06''
        = [CHR 0x22, CHR ''x'', CHR 0x27] @ ''<br>&gt;''
   \<and> dateDisplay DayOnly tz date = String (getDate tz date)
   \<and> dateDisplay MonthDay tz date
        = String (getMonth tz date + 1) @ ''/'' @ String (getDate tz date)"
  by (simp add: text_eval dateDisplay_modes)

section \<open>Properties of the pattern store\<close>

lemma findIndex_found:
  "0 \<le> findIndex P xs \<Longrightarrow> nat (findIndex P xs) < length xs \<and> P (xs ! nat (findIndex P xs))"
proof (induction xs)
  case Nil
  then show ?case by simp
next
  case (Cons x xs)
  show ?case
  proof (cases "P x")
    case True
    then show ?thesis by simp
  next
    case False
    with Cons.prems have i: "0 \<le> findIndex P xs"
      by (simp add: Let_def split: if_splits)
    then have "findIndex P (x # xs) = findIndex P xs + 1"
      using False by (simp add: Let_def)
    moreover have "nat (findIndex P xs + 1) = Suc (nat (findIndex P xs))" using i by simp
    ultimately show ?thesis using Cons.IH [OF i] by simp
  qed
qed

lemma findIndex_none: "findIndex P xs < 0 \<Longrightarrow> \<forall>x\<in>set xs. \<not> P x"
  by (induction xs) (auto simp: Let_def split: if_splits)

lemma addOrUpdatePattern_set:
  "set (patterns (addOrUpdatePattern now st))
     \<subseteq> insert (editingPattern st) (insert ((editingPattern st)\<lparr>id' := now\<rparr>) (set (patterns st)))"
  using set_update_subset_insert [of "patterns st" _ "editingPattern st"]
  by (auto simp: addOrUpdatePattern_def Let_def)

lemma addOrUpdatePattern_commits:
  "\<exists>i. (editingPattern st)\<lparr>id' := i\<rparr> \<in> set (patterns (addOrUpdatePattern now st))"
proof (cases "0 \<le> findIndex (\<lambda>p. id' p = id' (editingPattern st)) (patterns st)")
  case True
  then have "nat (findIndex (\<lambda>p. id' p = id' (editingPattern st)) (patterns st))
      < length (patterns st)"
    using findIndex_found by blast
  then have "editingPattern st \<in> set (patterns (addOrUpdatePattern now st))"
    using True by (simp add: addOrUpdatePattern_def Let_def set_update_memI)
  then have "(editingPattern st)\<lparr>id' := id' (editingPattern st)\<rparr>
      \<in> set (patterns (addOrUpdatePattern now st))" by simp
  then show ?thesis by blast
next
  case False
  then have "(editingPattern st)\<lparr>id' := now\<rparr> \<in> set (patterns (addOrUpdatePattern now st))"
    by (simp add: addOrUpdatePattern_def Let_def)
  then show ?thesis by blast
qed

lemma countPerDay_onBlur_ge:
  assumes "greaterEqual (countPerDay (editingPattern st)) 0"
  shows "greaterEqual (countPerDay (editingPattern (countPerDay_onBlur st))) 1"
proof (cases "countPerDay (editingPattern st)")
  case (Num n)
  then show ?thesis using assms by (cases "n = 0") (simp_all add: countPerDay_onBlur_def)
qed (use assms in \<open>simp_all add: countPerDay_onBlur_def\<close>)

lemma countPerDay_onBlur_patterns: "patterns (countPerDay_onBlur st) = patterns st"
  by (simp add: countPerDay_onBlur_def)

lemma countPerDay_onChange_nonneg:
  "greaterEqual (countPerDay (editingPattern st)) 0 \<Longrightarrow>
   greaterEqual (countPerDay (editingPattern (countPerDay_onChange val st))) 0"
  by (simp add: countPerDay_onChange_def Let_def)

text \<open>
  The pattern identifiers of the store stay distinct: a save either replaces the pattern
  that has the editing pattern's identifier or appends one with the identifier \<open>now\<close>,
  and a removal only filters. The resolver keys its counters by identifier, so this is
  the invariant under which its results are those of one counter per pattern.
\<close>

lemma addOrUpdatePattern_distinct:
  assumes "distinct (map id' (patterns st))" and "now \<notin> id' ` set (patterns st)"
  shows "distinct (map id' (patterns (addOrUpdatePattern now st)))"
proof (cases "0 \<le> findIndex (\<lambda>p. id' p = id' (editingPattern st)) (patterns st)")
  case True
  define i where "i = nat (findIndex (\<lambda>p. id' p = id' (editingPattern st)) (patterns st))"
  have i: "i < length (patterns st)" "id' (patterns st ! i) = id' (editingPattern st)"
    unfolding i_def using findIndex_found [OF True] by simp_all
  have "map id' ((patterns st)[i := editingPattern st]) = (map id' (patterns st))[i := id' (patterns st ! i)]"
    by (simp only: map_update i(2))
  also have "\<dots> = map id' (patterns st)"
    using i(1) by (simp add: list_update_same_conv)
  finally show ?thesis
    using True assms(1) by (simp add: addOrUpdatePattern_def Let_def i_def)
next
  case False
  then show ?thesis
    using assms by (simp add: addOrUpdatePattern_def Let_def)
qed

lemma removePattern_distinct:
  "distinct (map id' (patterns st)) \<Longrightarrow> distinct (map id' (patterns (removePattern i st)))"
  by (simp add: removePattern_def distinct_map_filter)

lemma cleared_saved:
  "patterns (addOrUpdatePattern 5 cleared)
     = [\<lparr>id' = 5, subjectName = ''X'', unit = [], startNum = Num 1, countPerDay = Num 0,
         days = []\<rparr>]"
  by (simp add: cleared_def countPerDay_onChange_def initial_def addOrUpdatePattern_def)

lemma cleared_lines:
  "map (resolve seoul [1736089200000, 1736175600000]
          [\<lparr>id' = 5, subjectName = ''X'', unit = [], startNum = Num 1, countPerDay = Num 0,
            days = []\<rparr>])
     [''2025-01-06'', ''2025-01-07'']
   = [Some ''X 1-0'', Some ''X 1-0'']"
proof -
  have "map (dateKey seoul) [1736089200000, 1736175600000] = [''2025-01-06'', ''2025-01-07'']"
    using twoMondays_keys by (simp add: twoMondays_def)
  then show ?thesis
    by (simp add: resolve_eval small_numbers string_eval)
qed

text \<open>
  Claim C8. The upsert stores the pattern under edit as it is, with no check of its count
  per day; only the blur handler of the input turns a count of 0 into 1. With the input
  cleared and no blur before the save, the editing pattern has count 0 (which is
  \<open>\<ge> 0\<close>) and the store then holds a pattern with count 0, where after a blur it holds
  one with count 1; applied to a calendar, the stored pattern writes \<open>X 1-0\<close> on every
  day.
\<close>

theorem addOrUpdatePattern_stores_zero:
  "greaterEqual (countPerDay (editingPattern cleared)) 0
   \<and> map countPerDay (patterns (addOrUpdatePattern 5 cleared)) = [Num 0]
   \<and> \<not> list_all (\<lambda>p. greaterEqual (countPerDay p) 1) (patterns (addOrUpdatePattern 5 cleared))
   \<and> map countPerDay (patterns (addOrUpdatePattern 5 (countPerDay_onBlur cleared))) = [Num 1]
   \<and> map (plans (applyAllPatterns seoul
              ((addOrUpdatePattern 5 cleared)\<lparr>calendar := [1736089200000, 1736175600000]\<rparr>)))
        [''2025-01-06'', ''2025-01-07'']
       = [Some ''X 1-0'', Some ''X 1-0'']"
proof -
  have a: "greaterEqual (countPerDay (editingPattern cleared)) 0"
    by (simp add: cleared_def countPerDay_onChange_def initial_def)
  have b: "map countPerDay (patterns (addOrUpdatePattern 5 cleared)) = [Num 0]"
    by (simp add: cleared_saved)
  have c: "\<not> list_all (\<lambda>p. greaterEqual (countPerDay p) 1) (patterns (addOrUpdatePattern 5 cleared))"
    by (simp add: cleared_saved)
  have d: "map countPerDay (patterns (addOrUpdatePattern 5 (countPerDay_onBlur cleared))) = [Num 1]"
    by (simp add: cleared_def countPerDay_onChange_def countPerDay_onBlur_def initial_def
        addOrUpdatePattern_def)
  have e: "map (plans (applyAllPatterns seoul
              ((addOrUpdatePattern 5 cleared)\<lparr>calendar := [1736089200000, 1736175600000]\<rparr>)))
        [''2025-01-06'', ''2025-01-07'']
       = [Some ''X 1-0'', Some ''X 1-0'']"
    using cleared_lines by (simp add: applyAllPatterns_def cleared_saved)
  from a b c d e show ?thesis by blast
qed

text \<open>
  After the blur handler has run: the blur handler of the count-per-day input replaces a
  count of 0 by 1, and the upsert stores the editing pattern's count unchanged. So for an
  editing pattern with count \<open>\<ge> 0\<close>, after the blur handler has run, the pattern that
  the upsert commits has count \<open>\<ge> 1\<close>; and if every stored pattern had count \<open>\<ge> 1\<close>
  before, every stored pattern has it after.
\<close>

theorem addOrUpdatePattern_after_blur:
  assumes "greaterEqual (countPerDay (editingPattern st)) 0"
  shows "(\<exists>i. (editingPattern (countPerDay_onBlur st))\<lparr>id' := i\<rparr>
               \<in> set (patterns (addOrUpdatePattern now (countPerDay_onBlur st)))
             \<and> greaterEqual (countPerDay ((editingPattern (countPerDay_onBlur st))\<lparr>id' := i\<rparr>)) 1)
       \<and> ((\<forall>p\<in>set (patterns st). greaterEqual (countPerDay p) 1) \<longrightarrow>
           (\<forall>p\<in>set (patterns (addOrUpdatePattern now (countPerDay_onBlur st))).
              greaterEqual (countPerDay p) 1))"
proof -
  define st' where "st' = countPerDay_onBlur st"
  have ge: "greaterEqual (countPerDay (editingPattern st')) 1"
    unfolding st'_def using assms by (rule countPerDay_onBlur_ge)
  obtain i where "(editingPattern st')\<lparr>id' := i\<rparr> \<in> set (patterns (addOrUpdatePattern now st'))"
    using addOrUpdatePattern_commits by blast
  then have a: "\<exists>i. (editingPattern st')\<lparr>id' := i\<rparr> \<in> set (patterns (addOrUpdatePattern now st'))
             \<and> greaterEqual (countPerDay ((editingPattern st')\<lparr>id' := i\<rparr>)) 1"
    using ge by auto
  have b: "(\<forall>p\<in>set (patterns st). greaterEqual (countPerDay p) 1) \<longrightarrow>
           (\<forall>p\<in>set (patterns (addOrUpdatePattern now st')). greaterEqual (countPerDay p) 1)"
  proof (intro impI ballI)
    fix p
    assume inv: "\<forall>p\<in>set (patterns st). greaterEqual (countPerDay p) 1"
      and p: "p \<in> set (patterns (addOrUpdatePattern now st'))"
    from p addOrUpdatePattern_set [of now st']
    have "p = editingPattern st' \<or> p = (editingPattern st')\<lparr>id' := now\<rparr> \<or> p \<in> set (patterns st')"
      by auto
    then show "greaterEqual (countPerDay p) 1"
      using ge inv by (auto simp: st'_def countPerDay_onBlur_patterns)
  qed
  from a b show ?thesis unfolding st'_def by blast
qed

theorem addOrUpdatePattern_after_blur_witness:
  "greaterEqual (countPerDay (editingPattern cleared)) 0
   \<and> patterns cleared = []
   \<and> map countPerDay (patterns (addOrUpdatePattern 5 (countPerDay_onBlur cleared))) = [Num 1]
   \<and> list_all (\<lambda>p. greaterEqual (countPerDay p) 1)
         (patterns (addOrUpdatePattern 5 (countPerDay_onBlur cleared)))"
proof -
  have h: "greaterEqual (countPerDay (editingPattern cleared)) 0"
    by (simp add: cleared_def countPerDay_onChange_def initial_def)
  have ps: "patterns cleared = []"
    by (simp add: cleared_def countPerDay_onChange_def initial_def)
  have e: "map countPerDay (patterns (addOrUpdatePattern 5 (countPerDay_onBlur cleared))) = [Num 1]"
    by (simp add: cleared_def countPerDay_onChange_def countPerDay_onBlur_def initial_def
        addOrUpdatePattern_def)
  from addOrUpdatePattern_after_blur [OF h, of 5] ps
  have "list_all (\<lambda>p. greaterEqual (countPerDay p) 1)
         (patterns (addOrUpdatePattern 5 (countPerDay_onBlur cleared)))"
    by (simp add: list_all_iff)
  with h ps e show ?thesis by blast
qed
end
